theory Spec2Isabelle
  imports Main "HOL-Library.Word"
begin

section \<open>Python strings and bytes\<close>

text \<open>
  A Python \<open>str\<close> is a sequence of code points. It is modelled as a \<open>string\<close> whose
  characters are the code points below 256, one \<open>char\<close> per code point, so that
  \<open>length\<close> is Python's \<open>len\<close>. A \<open>bytes\<close> object is a list of 8-bit words.
\<close>

type_synonym bytes = "8 word list"

abbreviation NL :: char where "NL \<equiv> CHR 0x0A"
abbreviation CR :: char where "CR \<equiv> CHR 0x0D"
abbreviation TAB :: char where "TAB \<equiv> CHR 0x09"

text \<open>
  \<open>str.isspace\<close> on one character, which is also what \<open>\s\<close> matches in a \<open>str\<close>
  pattern and what \<open>str.strip()\<close> removes: below 256 these are 0x09-0x0D, 0x1C-0x20,
  0x85 and 0xA0.
\<close>

definition is_space :: "char \<Rightarrow> bool" where
  "is_space c = (c \<in> set [CHR 0x09, CHR 0x0A, CHR 0x0B, CHR 0x0C, CHR 0x0D,
                           CHR 0x1C, CHR 0x1D, CHR 0x1E, CHR 0x1F, CHR 0x20,
                           CHR 0x85, CHR 0xA0])"

text \<open>\<open>s.strip()\<close>\<close>

definition strip_py :: "string \<Rightarrow> string" where
  "strip_py s = rev (dropWhile is_space (rev (dropWhile is_space s)))"

text \<open>\<open>s.replace(c, '')\<close> for a one-character \<open>c\<close>\<close>

definition remove_char :: "char \<Rightarrow> string \<Rightarrow> string" where
  "remove_char c s = filter (\<lambda>x. x \<noteq> c) s"

text \<open>\<open>s.rsplit('.', 1)\<close>: one part without a dot, else the text before the last dot and
  the text after it.\<close>

definition rsplit_dot :: "string \<Rightarrow> string list" where
  "rsplit_dot s =
     (if CHR ''.'' \<in> set s
      then [rev (tl (dropWhile (\<lambda>x. x \<noteq> CHR ''.'') (rev s))),
            rev (takeWhile (\<lambda>x. x \<noteq> CHR ''.'') (rev s))]
      else [s])"

text \<open>\<open>s.split(sep)\<close> for a one-character \<open>sep\<close>\<close>

fun split_on :: "char \<Rightarrow> string \<Rightarrow> string list" where
  "split_on sep [] = [[]]"
| "split_on sep (c # cs) =
     (if c = sep then [] # split_on sep cs
      else (case split_on sep cs of l # ls \<Rightarrow> (c # l) # ls | [] \<Rightarrow> [[c]]))"

text \<open>\<open>sep.join(xs)\<close>\<close>

fun join_strs :: "string \<Rightarrow> string list \<Rightarrow> string" where
  "join_strs sep [] = []"
| "join_strs sep [x] = x"
| "join_strs sep (x # y # r) = x @ sep @ join_strs sep (y # r)"

section \<open>Paths (pathlib)\<close>

text \<open>
  \<open>pathlib.Path\<close> on a POSIX system. \<open>path_str s\<close> is \<open>str(Path(s))\<close>: the root is \<open>//\<close> for
  exactly two leading slashes and \<open>/\<close> for any other number of them, the components are
  the non-empty parts between slashes other than \<open>.\<close>, and a path without root and
  components is \<open>.\<close>. \<open>path_join a b\<close> is \<open>str(Path(a) / b)\<close>: an absolute \<open>b\<close> replaces \<open>a\<close>.
\<close>

definition path_root :: "string \<Rightarrow> string" where
  "path_root s =
     (if take 2 s = ''//'' \<and> take 3 s \<noteq> ''///'' then ''//''
      else if take 1 s = ''/'' then ''/''
      else [])"

definition path_parts :: "string \<Rightarrow> string list" where
  "path_parts s = filter (\<lambda>p. p \<noteq> [] \<and> p \<noteq> ''.'') (split_on (CHR ''/'') s)"

definition path_str :: "string \<Rightarrow> string" where
  "path_str s =
     (if path_root s = [] \<and> path_parts s = [] then ''.''
      else path_root s @ join_strs ''/'' (path_parts s))"

definition path_join :: "string \<Rightarrow> string \<Rightarrow> string" where
  "path_join a b =
     path_str (if take 1 b = ''/'' then b
               else if a = [] \<or> last a = CHR ''/'' then a @ b
               else a @ ''/'' @ b)"

section \<open>XML elements\<close>

text \<open>
  An \<open>xml.etree.ElementTree.Element\<close>: its tag, its attribute dictionary, its text
  (\<open>None\<close> when the element has none) and its children in document order.
\<close>

datatype elem = Elem (etag: string) (eattrib: "(string \<times> string) list")
                     (etext: "string option") (echildren: "elem list")

text \<open>\<open>e.find(t)\<close>: the first child with tag \<open>t\<close>, or \<open>None\<close>.\<close>

definition elem_find :: "string \<Rightarrow> elem \<Rightarrow> elem option" where
  "elem_find t e = List.find (\<lambda>c. etag c = t) (echildren e)"

text \<open>\<open>e.findall(t)\<close>: the children with tag \<open>t\<close>, in document order.\<close>

definition elem_findall :: "string \<Rightarrow> elem \<Rightarrow> elem list" where
  "elem_findall t e = filter (\<lambda>c. etag c = t) (echildren e)"

text \<open>\<open>e.get(k, default)\<close>\<close>

definition elem_get :: "elem \<Rightarrow> string \<Rightarrow> string \<Rightarrow> string" where
  "elem_get e k dflt = (case map_of (eattrib e) k of None \<Rightarrow> dflt | Some v \<Rightarrow> v)"

section \<open>Errors\<close>

text \<open>The exceptions that leave the modelled functions.\<close>

datatype error = OSError | TypeError | BinasciiError | AttributeError | KeyError | ValueError | ParseError

section \<open>AttachmentExtractor (attachment\_extractor.py)\<close>

text \<open>The dictionary literal of \<open>_get_extension_from_mime\<close>, in source order.\<close>

definition mime_to_ext :: "(string \<times> string) list" where
  "mime_to_ext =
    [(''image/jpeg'', ''.jpg''),
     (''image/png'', ''.png''),
     (''image/gif'', ''.gif''),
     (''image/svg+xml'', ''.svg''),
     (''image/webp'', ''.webp''),
     (''application/pdf'', ''.pdf''),
     (''text/plain'', ''.txt''),
     (''text/html'', ''.html''),
     (''application/msword'', ''.doc''),
     (''application/vnd.openxmlformats-officedocument.wordprocessingml.document'', ''.docx''),
     (''application/vnd.ms-excel'', ''.xls''),
     (''application/vnd.openxmlformats-officedocument.spreadsheetml.sheet'', ''.xlsx''),
     (''application/zip'', ''.zip''),
     (''audio/mpeg'', ''.mp3''),
     (''video/mp4'', ''.mp4'')]"

text \<open>
  \<open>mime_to_ext.get(mime_type, '.bin')\<close>. The MIME type is the text of the \<open><mime>\<close>
  element, which is \<open>None\<close> for an empty element; \<open>None\<close> is no key of the table.
\<close>

definition get_extension_from_mime :: "string option \<Rightarrow> string" where
  "get_extension_from_mime mime_type =
     (case mime_type of
        None \<Rightarrow> ''.bin''
      | Some m \<Rightarrow> (case map_of mime_to_ext m of None \<Rightarrow> ''.bin'' | Some ext \<Rightarrow> ext))"

text \<open>The dictionary \<open>attachment_info\<close> that \<open>_extract_resource\<close> returns.\<close>

record attachment_info =
  ai_hash :: string
  ai_filename :: string
  ai_original_filename :: "string option"
  ai_mime_type :: "string option"
  ai_size :: nat
  ai_file_path :: string
  ai_note_index :: nat

text \<open>Lines 89-91 of \<open>_extract_resource\<close>: the MIME type of a resource.\<close>

definition resource_mime_type :: "elem \<Rightarrow> string option" where
  "resource_mime_type resource_elem =
     (case elem_find ''mime'' resource_elem of
        Some mime_elem \<Rightarrow> etext mime_elem
      | None \<Rightarrow> Some ''application/octet-stream'')"

text \<open>Lines 93-99: the declared file name, \<open>None\<close> when no \<open><file-name>\<close> is found.\<close>

definition declared_filename :: "elem \<Rightarrow> string option" where
  "declared_filename resource_elem =
     (case elem_find ''resource-attributes'' resource_elem of
        None \<Rightarrow> None
      | Some attrs \<Rightarrow>
          (case elem_find ''file-name'' attrs of
             None \<Rightarrow> None
           | Some filename_elem \<Rightarrow> etext filename_elem))"

text \<open>
  Lines 101-121: the name used on disk. \<open>not filename\<close> holds for \<open>None\<close> and for the
  empty string.
\<close>

definition resolve_filename :: "string \<Rightarrow> string option \<Rightarrow> string option \<Rightarrow> string" where
  "resolve_filename data_hash mime_type filename =
     (case filename of
        None \<Rightarrow> data_hash @ get_extension_from_mime mime_type
      | Some fn \<Rightarrow>
          if fn = [] then data_hash @ get_extension_from_mime mime_type
          else
            let clean_filename = strip_py (remove_char CR (remove_char NL fn));
                clean_filename =
                  (if length clean_filename > 50
                   then (case rsplit_dot clean_filename of
                           [p0, p1] \<Rightarrow> take 40 p0 @ ''.'' @ p1
                         | _ \<Rightarrow> take 50 clean_filename)
                   else clean_filename)
            in (case rsplit_dot clean_filename of
                  [p0, p1] \<Rightarrow> data_hash @ ''_'' @ p0 @ ''.'' @ p1
                | _ \<Rightarrow> data_hash @ ''_'' @ clean_filename))"

text \<open>
  Lines 69-77: the text of the \<open><data>\<close> element when the element is present, its text
  is not empty and its \<open>encoding\<close> attribute (default \<open>''\<close>) is \<open>base64\<close>; \<open>None\<close>
  on the three early returns.
\<close>

definition resource_payload :: "elem \<Rightarrow> string option" where
  "resource_payload resource_elem =
     (case elem_find ''data'' resource_elem of
        None \<Rightarrow> None
      | Some data_elem \<Rightarrow>
         (case etext data_elem of
            None \<Rightarrow> None
          | Some data_text \<Rightarrow>
             if data_text = [] then None
             else if elem_get data_elem ''encoding'' [] \<noteq> ''base64'' then None
             else Some data_text))"

text \<open>
  \<open>_extract_resource\<close>. The library functions are parameters: \<open>b64decode\<close> is
  \<open>base64.b64decode\<close> (\<open>None\<close> when it raises), \<open>md5_hexdigest\<close> is
  \<open>hashlib.md5(data).hexdigest()\<close>, and \<open>can_open\<close> says whether \<open>open(path, 'wb')\<close>
  succeeds. The file system is a map from paths to the bytes written there;
  \<open>attachments_dir\<close> is the \<open>Path\<close> of the caller as a string, and the path
  \<open>attachments_dir / filename\<close> is joined by \<open>pathlib\<close>. The function returns \<open>None\<close> for a
  skipped resource, the dictionary otherwise, and raises \<open>OSError\<close> when the file cannot be
  opened.
\<close>

definition extract_resource ::
  "(string \<Rightarrow> bytes option) \<Rightarrow> (bytes \<Rightarrow> string) \<Rightarrow> (string \<Rightarrow> bool) \<Rightarrow>
   elem \<Rightarrow> string \<Rightarrow> nat \<Rightarrow> (string \<rightharpoonup> bytes) \<Rightarrow>
   (error + attachment_info option) \<times> (string \<rightharpoonup> bytes)" where
  "extract_resource b64decode md5_hexdigest can_open resource_elem attachments_dir note_idx fs =
     (case resource_payload resource_elem of
        None \<Rightarrow> (Inr None, fs)
      | Some data_text \<Rightarrow>
         (case b64decode data_text of
            None \<Rightarrow> (Inr None, fs)
          | Some attachment_data \<Rightarrow>
             let data_hash = take 8 (md5_hexdigest attachment_data);
                 mime_type = resource_mime_type resource_elem;
                 filename = resolve_filename data_hash mime_type
                              (declared_filename resource_elem);
                 file_path = path_join attachments_dir filename
             in if \<not> can_open file_path then (Inl OSError, fs)
                else (Inr (Some \<lparr>ai_hash = data_hash,
                                 ai_filename = filename,
                                 ai_original_filename = declared_filename resource_elem,
                                 ai_mime_type = mime_type,
                                 ai_size = length attachment_data,
                                 ai_file_path = file_path,
                                 ai_note_index = note_idx\<rparr>),
                      fs(file_path \<mapsto> attachment_data))))"

text \<open>
  The loop of \<open>extract_attachments_from_enex\<close> over the resources of one note (lines
  42-46): \<open>attachments\<close> collects the returned dictionaries in order, \<open>attachment_map\<close>
  maps each content hash to the last dictionary with it.
\<close>

fun extract_note_resources ::
  "(string \<Rightarrow> bytes option) \<Rightarrow> (bytes \<Rightarrow> string) \<Rightarrow> (string \<Rightarrow> bool) \<Rightarrow>
   string \<Rightarrow> nat \<Rightarrow> elem list \<Rightarrow>
   attachment_info list \<times> (string \<rightharpoonup> attachment_info) \<times> (string \<rightharpoonup> bytes) \<Rightarrow>
   error + attachment_info list \<times> (string \<rightharpoonup> attachment_info) \<times> (string \<rightharpoonup> bytes)" where
  "extract_note_resources b64decode md5_hexdigest can_open dir note_idx []
     (attachments, attachment_map, fs) = Inr (attachments, attachment_map, fs)"
| "extract_note_resources b64decode md5_hexdigest can_open dir note_idx (resource_elem # rest)
     (attachments, attachment_map, fs) =
     (case extract_resource b64decode md5_hexdigest can_open resource_elem dir note_idx fs of
        (Inl e, fs') \<Rightarrow> Inl e
      | (Inr None, fs') \<Rightarrow>
          extract_note_resources b64decode md5_hexdigest can_open dir note_idx rest
            (attachments, attachment_map, fs')
      | (Inr (Some attachment_info), fs') \<Rightarrow>
          extract_note_resources b64decode md5_hexdigest can_open dir note_idx rest
            (attachments @ [attachment_info],
             attachment_map(ai_hash attachment_info \<mapsto> attachment_info), fs'))"

section \<open>The filename rule in the words of the specification\<close>

text \<open>
  The specification's rule for a declared file name, written from its words to be
  compared with \<open>resolve_filename\<close>: remove newlines and carriage returns, strip
  surrounding whitespace; above 50 characters, keep 40 characters of the stem and the
  extension when the name has a dot (split on the last one), else keep 50 characters.
\<close>

definition before_last_dot :: "string \<Rightarrow> string" where
  "before_last_dot s = rev (tl (dropWhile (\<lambda>x. x \<noteq> CHR ''.'') (rev s)))"

definition after_last_dot :: "string \<Rightarrow> string" where
  "after_last_dot s = rev (takeWhile (\<lambda>x. x \<noteq> CHR ''.'') (rev s))"

definition spec_declared_name :: "string \<Rightarrow> string" where
  "spec_declared_name fn =
     (let cleaned = strip_py (filter (\<lambda>x. x \<noteq> NL \<and> x \<noteq> CR) fn)
      in if length cleaned > 50
         then (if CHR ''.'' \<in> set cleaned
               then take 40 (before_last_dot cleaned) @ ''.'' @ after_last_dot cleaned
               else take 50 cleaned)
         else cleaned)"

section \<open>Example inputs\<close>

text \<open>
  The inputs of the closed theorems below. \<open>example_b64decode\<close> and \<open>example_md5\<close> are
  the library functions on the one payload used: \<open>AQID\<close> is the base64 text of the bytes
  1, 2, 3, whose MD5 digest is \<open>5289df737df57326fcdd22597afb1fac\<close>; \<open>abc\<close> has no valid
  padding and \<open>b64decode\<close> raises on it.
\<close>

definition example_b64decode :: "string \<Rightarrow> bytes option" where
  "example_b64decode s = (if s = ''AQID'' then Some [1, 2, 3] else None)"

definition example_md5 :: "bytes \<Rightarrow> string" where
  "example_md5 b = ''5289df737df57326fcdd22597afb1fac''"

text \<open>A \<open><resource>\<close> with the given encoding, payload, MIME type and file name.\<close>

definition example_resource :: "string \<Rightarrow> string \<Rightarrow> string \<Rightarrow> string option \<Rightarrow> elem" where
  "example_resource enc payload mime fname =
     Elem ''resource'' [] None
       ([Elem ''data'' [(''encoding'', enc), (''hash'', ''abc123'')] (Some payload) [],
         Elem ''mime'' [] (Some mime) []] @
        (case fname of
           None \<Rightarrow> []
         | Some f \<Rightarrow> [Elem ''resource-attributes'' [] None [Elem ''file-name'' [] (Some f) []]]))"

lemmas example_defs =
  example_b64decode_def example_md5_def example_resource_def elem_find_def elem_get_def
  elem_findall_def resource_payload_def resource_mime_type_def declared_filename_def

section \<open>IndividualNoteExporter (enex\_to\_individual\_notes.py)\<close>











section \<open>Regular expressions of the converters\<close>

text \<open>
  \<open>re.sub\<close> scans the text from the left, replaces the leftmost match, and goes on
  behind it. Each pattern of the source is one function here; a function tries the
  pattern at the head of the text and otherwise keeps the head character.
\<close>

definition starts_with :: "string \<Rightarrow> string \<Rightarrow> bool" where
  "starts_with pat s = (take (length pat) s = pat)"

text \<open>The first occurrence of a literal: the text before it and the text behind it.\<close>

fun find_lit :: "string \<Rightarrow> string \<Rightarrow> (string \<times> string) option" where
  "find_lit pat [] = (if pat = [] then Some ([], []) else None)"
| "find_lit pat (c # cs) =
     (if starts_with pat (c # cs) then Some ([], drop (length pat) (c # cs))
      else map_option (\<lambda>(b, a). (c # b, a)) (find_lit pat cs))"

text \<open>A literal pattern, as \<open>re.sub(r'</p>', rep, text)\<close>.\<close>

function replace_lit :: "string \<Rightarrow> string \<Rightarrow> string \<Rightarrow> string" where
  "replace_lit pat rep [] = []"
| "replace_lit pat rep (c # cs) =
     (if starts_with pat (c # cs) then rep @ replace_lit pat rep (drop (length pat - 1) cs)
      else c # replace_lit pat rep cs)"
  by pat_completeness auto
termination
  by (relation "measure (\<lambda>(pat, rep, s). length s)") auto

text \<open>
  The patterns \<open>lit[^>]*>\<close> (\<open>least = 0\<close>) and \<open>lit[^>]+>\<close> (\<open>least = 1\<close>): the literal,
  then the characters up to the first \<open>>\<close>, of which there must be \<open>least\<close>, then that
  \<open>>\<close>. \<open>open_match\<close> gives the matched text without its final \<open>>\<close> and the text behind
  the match; \<open>sub_open\<close> replaces every match by \<open>f\<close> of the matched text.
\<close>

definition open_match :: "string \<Rightarrow> nat \<Rightarrow> string \<Rightarrow> (string \<times> string) option" where
  "open_match lit least s =
     (if starts_with lit s then
        let r = drop (length lit) s;
            body = takeWhile (\<lambda>x. x \<noteq> CHR ''>'') r;
            after = dropWhile (\<lambda>x. x \<noteq> CHR ''>'') r
        in if least \<le> length body \<and> after \<noteq> [] then Some (lit @ body, tl after) else None
      else None)"


lemma length_open_match: "open_match lit least s = Some (m, r) \<Longrightarrow> length r < length s"
proof -
  assume "open_match lit least s = Some (m, r)"
  then have r: "r = tl (dropWhile (\<lambda>x. x \<noteq> CHR ''>'') (drop (length lit) s))"
    and ne: "dropWhile (\<lambda>x. x \<noteq> CHR ''>'') (drop (length lit) s) \<noteq> []"
    by (auto simp: open_match_def Let_def split: if_splits)
  have "length r < length (dropWhile (\<lambda>x. x \<noteq> CHR ''>'') (drop (length lit) s))"
    using ne r by (cases "dropWhile (\<lambda>x. x \<noteq> CHR ''>'') (drop (length lit) s)") auto
  also have "\<dots> \<le> length (drop (length lit) s)"
    by (rule length_dropWhile_le)
  finally show ?thesis by simp
qed

function sub_open :: "string \<Rightarrow> nat \<Rightarrow> (string \<Rightarrow> string) \<Rightarrow> string \<Rightarrow> string" where
  "sub_open lit least f [] = []"
| "sub_open lit least f (c # cs) =
     (case open_match lit least (c # cs) of
        Some (m, rest) \<Rightarrow> f (m @ ''>'') @ sub_open lit least f rest
      | None \<Rightarrow> c # sub_open lit least f cs)"
  by pat_completeness auto
termination
proof (relation "measure (\<lambda>(lit, least, f, s). length s)")
  fix lit :: string and least :: nat and f :: "string \<Rightarrow> string" and c cs x2 x y
  assume "open_match lit least (c # cs) = Some x2" and "(x, y) = x2"
  then have "open_match lit least (c # cs) = Some (x, y)" by simp
  then have "length y < length (c # cs)" by (rule length_open_match)
  then show "((lit, least, f, y), (lit, least, f, c # cs)) \<in> measure (\<lambda>(lit, least, f, s). length s)"
    by simp
qed auto

text \<open>\<open><br\s*/?>\<close>: the text behind a match at the head.\<close>

definition br_match :: "string \<Rightarrow> string option" where
  "br_match s =
     (if starts_with ''<br'' s then
        let r = dropWhile is_space (drop 3 s);
            r = (case r of c # r' \<Rightarrow> if c = CHR ''/'' then r' else r | [] \<Rightarrow> r)
        in (case r of c # r' \<Rightarrow> if c = CHR ''>'' then Some r' else None | [] \<Rightarrow> None)
      else None)"

function sub_br :: "string \<Rightarrow> string \<Rightarrow> string" where
  "sub_br rep [] = []"
| "sub_br rep (c # cs) =
     (case br_match (c # cs) of
        Some rest \<Rightarrow> rep @ sub_br rep rest
      | None \<Rightarrow> c # sub_br rep cs)"
  by pat_completeness auto
termination
proof (relation "measure (\<lambda>(rep, s). length s)")
  fix rep :: string and c cs rest
  assume m: "br_match (c # cs) = Some rest"
  define r where "r = dropWhile is_space (drop 3 (c # cs))"
  have r: "length r \<le> length (c # cs)"
    unfolding r_def by (rule order_trans[OF length_dropWhile_le]) simp
  have "length rest < length r"
    using m unfolding br_match_def Let_def r_def[symmetric]
    by (auto split: if_splits list.splits)
  with r show "((rep, rest), (rep, c # cs)) \<in> measure (\<lambda>(rep, s). length s)"
    by simp
qed auto


lemma length_find_lit: "find_lit pat s = Some (b, a) \<Longrightarrow> length a \<le> length s"
proof (induction s arbitrary: b)
  case Nil
  then show ?case by (simp split: if_splits)
next
  case (Cons c cs)
  show ?case
  proof (cases "starts_with pat (c # cs)")
    case True
    with Cons.prems show ?thesis by auto
  next
    case False
    with Cons.prems obtain b' where "find_lit pat cs = Some (b', a)" by auto
    then have "length a \<le> length cs" by (rule Cons.IH)
    then show ?thesis by simp
  qed
qed

text \<open>
  \<open><!\[CDATA\[(.*?)\]\]>\<close> with \<open>re.DOTALL\<close>, replaced by its group: the opening literal,
  then the text up to the first closing literal.
\<close>

definition cdata_match :: "string \<Rightarrow> (string \<times> string) option" where
  "cdata_match s =
     (if starts_with ''<![CDATA['' s then find_lit '']]>'' (drop 9 s) else None)"

function sub_cdata :: "string \<Rightarrow> string" where
  "sub_cdata [] = []"
| "sub_cdata (c # cs) =
     (case cdata_match (c # cs) of
        Some (inner, rest) \<Rightarrow> inner @ sub_cdata rest
      | None \<Rightarrow> c # sub_cdata cs)"
  by pat_completeness auto
termination
proof (relation "measure length")
  fix c cs x2 x y
  assume "cdata_match (c # cs) = Some x2" and "(x, y) = x2"
  then have "find_lit '']]>'' (drop 9 (c # cs)) = Some (x, y)"
    by (simp add: cdata_match_def split: if_splits)
  then have "length y \<le> length (drop 9 (c # cs))" by (rule length_find_lit)
  then show "(y, c # cs) \<in> measure length" by simp
qed auto

text \<open>
  The patterns \<open>lit[^>]*>(.*?)close\<close> with \<open>re.DOTALL\<close>: an opening tag, then the text
  up to the first closing literal. \<open>pair_match\<close> gives the group and the text behind the
  match; \<open>sub_pair\<close> replaces the match by \<open>f\<close> of the group.
\<close>

definition pair_match :: "string \<Rightarrow> string \<Rightarrow> string \<Rightarrow> (string \<times> string) option" where
  "pair_match lit close s =
     (case open_match lit 0 s of
        None \<Rightarrow> None
      | Some (m, r) \<Rightarrow> find_lit close r)"

lemma length_pair_match: "pair_match lit close s = Some (g, r) \<Longrightarrow> length r < length s"
proof -
  assume "pair_match lit close s = Some (g, r)"
  then obtain m r0 where o: "open_match lit 0 s = Some (m, r0)" and f: "find_lit close r0 = Some (g, r)"
    by (auto simp: pair_match_def split: option.splits)
  from f have "length r \<le> length r0" by (rule length_find_lit)
  with length_open_match[OF o] show ?thesis by simp
qed

function sub_pair :: "string \<Rightarrow> string \<Rightarrow> (string \<Rightarrow> string) \<Rightarrow> string \<Rightarrow> string" where
  "sub_pair lit close f [] = []"
| "sub_pair lit close f (c # cs) =
     (case pair_match lit close (c # cs) of
        Some (g, rest) \<Rightarrow> f g @ sub_pair lit close f rest
      | None \<Rightarrow> c # sub_pair lit close f cs)"
  by pat_completeness auto
termination
proof (relation "measure (\<lambda>(lit, close, f, s). length s)")
  fix lit close :: string and f :: "string \<Rightarrow> string" and c cs x2 x y
  assume "pair_match lit close (c # cs) = Some x2" and "(x, y) = x2"
  then have "pair_match lit close (c # cs) = Some (x, y)" by simp
  then have "length y < length (c # cs)" by (rule length_pair_match)
  then show "((lit, close, f, y), (lit, close, f, c # cs)) \<in> measure (\<lambda>(lit, close, f, s). length s)"
    by simp
qed auto

text \<open>
  \<open>\n{k,}\<close>: a run of at least \<open>k\<close> newlines is replaced as a whole.
\<close>

function collapse_newlines :: "nat \<Rightarrow> string \<Rightarrow> string \<Rightarrow> string" where
  "collapse_newlines k rep [] = []"
| "collapse_newlines k rep (c # cs) =
     (if c = NL \<and> k \<le> length (takeWhile (\<lambda>x. x = NL) (c # cs))
      then rep @ collapse_newlines k rep (dropWhile (\<lambda>x. x = NL) cs)
      else c # collapse_newlines k rep cs)"
  by pat_completeness auto
termination
  by (relation "measure (\<lambda>(k, rep, s). length s)") (auto simp: length_dropWhile_le less_Suc_eq_le)

text \<open>
  \<open>[ \t]+\n\<close> replaced by a newline: a run of spaces and tabs that ends at a newline.
\<close>

definition is_blank :: "char \<Rightarrow> bool" where
  "is_blank c = (c = CHR '' '' \<or> c = TAB)"

function strip_trailing_blanks :: "string \<Rightarrow> string" where
  "strip_trailing_blanks [] = []"
| "strip_trailing_blanks (c # cs) =
     (if is_blank c then
        (case dropWhile is_blank cs of
           d # rest \<Rightarrow> if d = NL then NL # strip_trailing_blanks rest
                       else c # strip_trailing_blanks cs
         | [] \<Rightarrow> c # strip_trailing_blanks cs)
      else c # strip_trailing_blanks cs)"
  by pat_completeness auto
termination
proof (relation "measure length")
  fix c :: char and cs d rest
  assume "dropWhile is_blank cs = d # rest"
  then have "length (d # rest) \<le> length cs"
    by (metis length_dropWhile_le)
  then show "(rest, c # cs) \<in> measure length" by simp
qed auto

text \<open>
  \<open><a[^>]+href="([^"]+)"[^>]*>(.*?)</a>\<close> with \<open>re.DOTALL\<close>, replaced by \<open>[\2](\1)\<close>. After
  \<open><a\<close> the greedy \<open>[^>]+\<close> takes \<open>k\<close> characters, as many as the rest of the pattern allows:
  \<open>link_try r k\<close> matches the rest of the pattern behind these \<open>k\<close> characters and gives the
  replacement and the text behind the match; \<open>link_match\<close> tries the largest \<open>k\<close> first.
\<close>

definition link_try :: "string \<Rightarrow> nat \<Rightarrow> (string \<times> string) option" where
  "link_try r k =
     (if starts_with (''href='' @ [CHR 0x22]) (drop k r) then
        let u = drop (k + 6) r;
            url = takeWhile (\<lambda>x. x \<noteq> CHR 0x22) u;
            v = dropWhile (\<lambda>x. x \<noteq> CHR 0x22) u
        in if url = [] \<or> v = [] then None
           else (case dropWhile (\<lambda>x. x \<noteq> CHR ''>'') (tl v) of
                   [] \<Rightarrow> None
                 | g # w \<Rightarrow>
                     (case find_lit ''</a>'' w of
                        None \<Rightarrow> None
                      | Some (inner, rest) \<Rightarrow> Some (''['' @ inner @ '']('' @ url @ '')'', rest)))
      else None)"

fun first_some :: "'a option list \<Rightarrow> 'a option" where
  "first_some [] = None"
| "first_some (Some x # xs) = Some x"
| "first_some (None # xs) = first_some xs"

definition link_match :: "string \<Rightarrow> (string \<times> string) option" where
  "link_match s =
     (if starts_with ''<a'' s then
        let r = drop 2 s;
            kmax = length (takeWhile (\<lambda>x. x \<noteq> CHR ''>'') r)
        in first_some (map (link_try r) (rev [1..<Suc kmax]))
      else None)"


lemma first_some_in: "first_some xs = Some x \<Longrightarrow> Some x \<in> set xs"
  by (induction xs rule: first_some.induct) auto

lemma length_link_try: "link_try r k = Some (rep, rest) \<Longrightarrow> length rest \<le> length r"
proof -
  assume a: "link_try r k = Some (rep, rest)"
  define u where "u = drop (k + 6) r"
  define v where "v = dropWhile (\<lambda>x. x \<noteq> CHR 0x22) u"
  from a obtain g w inner where w: "dropWhile (\<lambda>x. x \<noteq> CHR ''>'') (tl v) = g # w"
    and f: "find_lit ''</a>'' w = Some (inner, rest)"
    unfolding link_try_def Let_def u_def[symmetric] v_def[symmetric]
    by (auto split: if_splits list.splits option.splits)
  have "length rest \<le> length w" using f by (rule length_find_lit)
  also have "\<dots> \<le> length (dropWhile (\<lambda>x. x \<noteq> CHR ''>'') (tl v))" using w by simp
  also have "\<dots> \<le> length (tl v)" by (rule length_dropWhile_le)
  also have "\<dots> \<le> length v" by simp
  also have "\<dots> \<le> length u" unfolding v_def by (rule length_dropWhile_le)
  also have "\<dots> \<le> length r" unfolding u_def by simp
  finally show ?thesis .
qed

lemma length_link_match: "link_match (c # cs) = Some (rep, rest) \<Longrightarrow> length rest \<le> length cs"
proof -
  assume a: "link_match (c # cs) = Some (rep, rest)"
  then have sw: "starts_with ''<a'' (c # cs)"
    by (simp add: link_match_def split: if_splits)
  from a obtain k where "link_try (drop 2 (c # cs)) k = Some (rep, rest)"
    using sw by (auto simp: link_match_def Let_def dest!: first_some_in)
  then have "length rest \<le> length (drop 2 (c # cs))" by (rule length_link_try)
  then show ?thesis by simp
qed

function sub_link :: "string \<Rightarrow> string" where
  "sub_link [] = []"
| "sub_link (c # cs) =
     (case link_match (c # cs) of
        Some (rep, rest) \<Rightarrow> rep @ sub_link rest
      | None \<Rightarrow> c # sub_link cs)"
  by pat_completeness auto
termination
proof (relation "measure length")
  fix c cs x2 x y
  assume "link_match (c # cs) = Some x2" and "(x, y) = x2"
  then have "link_match (c # cs) = Some (x, y)" by simp
  then have "length y \<le> length cs" by (rule length_link_match)
  then show "(y, c # cs) \<in> measure length" by simp
qed auto

section \<open>ENEXParser.\_html\_to\_text (enex\_parser.py)\<close>

text \<open>
  \<open>_html_to_text\<close>, statement by statement. \<open>unescape\<close> is \<open>html.unescape\<close>. The argument is
  the text of the \<open><content>\<close> element, \<open>None\<close> for an empty element; \<open>not html_content\<close>
  holds for \<open>None\<close> and for the empty string.
\<close>

definition html_to_text :: "(string \<Rightarrow> string) \<Rightarrow> string option \<Rightarrow> string" where
  "html_to_text unescape html_content =
     (case html_content of
        None \<Rightarrow> []
      | Some h \<Rightarrow>
          if h = [] then []
          else
            let text = sub_cdata h;
                text = sub_open ''<en-note'' 0 (\<lambda>m. []) text;
                text = replace_lit ''</en-note>'' [] text;
                text = sub_open ''<en-media'' 0 (\<lambda>m. ''[Attachment]'') text;
                text = unescape text;
                text = sub_br [NL] text;
                text = replace_lit ''</p>'' [NL, NL] text;
                text = sub_open ''<'' 1 (\<lambda>m. []) text;
                text = collapse_newlines 3 [NL, NL] text
            in strip_py text)"

text \<open>
  \<open>html.unescape\<close> on the references used in the closed theorems: it replaces
  \<open>&lt;\<close>, \<open>&gt;\<close>, \<open>&amp;\<close>, \<open>&quot;\<close>, \<open>&#10;\<close> and \<open>&#32;\<close>, and agrees with
  \<open>html.unescape\<close> on every text in which each ampersand starts one of these six.
\<close>

definition example_entities :: "(string \<times> string) list" where
  "example_entities =
     [(''&lt;'', ''<''), (''&gt;'', ''>''), (''&amp;'', ''&''), (''&quot;'', [CHR 0x22]),
      (''&#10;'', [NL]), (''&#32;'', '' '')]"

fun example_unescape :: "string \<Rightarrow> string" where
  "example_unescape [] = []"
| "example_unescape (c # cs) =
     (case List.find (\<lambda>(e, r). starts_with e (c # cs)) example_entities of
        Some (e, r) \<Rightarrow> r @ example_unescape (drop (length e - 1) cs)
      | None \<Rightarrow> c # example_unescape cs)"


section \<open>ENEXParser (enex\_parser.py)\<close>

text \<open>
  The values the parser puts into its dictionaries. A dictionary is the list of its
  items in insertion order, with one item per key.
\<close>

datatype pyval = PNone | PStr string | PInt nat | PBool bool | PList "pyval list"
  | PDict "(string \<times> pyval) list"

type_synonym pydict = "(string \<times> pyval) list"

text \<open>\<open>d[k] = v\<close>: the value of a present key is replaced, a new key goes to the end.\<close>

fun dict_set :: "string \<Rightarrow> pyval \<Rightarrow> pydict \<Rightarrow> pydict" where
  "dict_set k v [] = [(k, v)]"
| "dict_set k v ((k', v') # d) = (if k' = k then (k, v) # d else (k', v') # dict_set k v d)"

text \<open>The truth value of an object, as \<open>if note:\<close> tests it.\<close>

fun truthy :: "pyval \<Rightarrow> bool" where
  "truthy PNone = False"
| "truthy (PStr s) = (s \<noteq> [])"
| "truthy (PInt n) = (n \<noteq> 0)"
| "truthy (PBool b) = b"
| "truthy (PList xs) = (xs \<noteq> [])"
| "truthy (PDict d) = (d \<noteq> [])"

text \<open>The text of an element as a value: \<open>None\<close> or a string.\<close>

definition text_val :: "string option \<Rightarrow> pyval" where
  "text_val t = (case t of None \<Rightarrow> PNone | Some s \<Rightarrow> PStr s)"

text \<open>
  \<open>_parse_date\<close>. \<open>strptime_iso s\<close> is
  \<open>datetime.strptime(s, '%Y%m%dT%H%M%S').isoformat()\<close>, \<open>None\<close> when \<open>strptime\<close> raises. For
  an element without text, \<open>date_str[:15]\<close> raises and the bare \<open>except\<close> returns \<open>date_str\<close>.
\<close>

definition parse_date :: "(string \<Rightarrow> string option) \<Rightarrow> string option \<Rightarrow> pyval" where
  "parse_date strptime_iso date_str =
     (case date_str of
        None \<Rightarrow> PNone
      | Some s \<Rightarrow> (case strptime_iso (take 15 s) of Some iso_text \<Rightarrow> PStr iso_text | None \<Rightarrow> PStr s))"

text \<open>\<open>_parse_attributes\<close>\<close>

definition parse_attributes :: "elem \<Rightarrow> pydict" where
  "parse_attributes attrs_elem =
     foldl (\<lambda>attrs child.
              (case etext child of
                 Some t \<Rightarrow> if t \<noteq> [] then dict_set (etag child) (PStr t) attrs else attrs
               | None \<Rightarrow> attrs))
           [] (echildren attrs_elem)"

text \<open>
  \<open>_parse_resource\<close>. \<open>b64decode\<close> is called outside any \<open>try\<close>, so its exception leaves
  the function: \<open>ValueError\<close> for a text with a character that is not ASCII,
  \<open>binascii.Error\<close> for any other text it rejects.
\<close>

definition is_ascii :: "char \<Rightarrow> bool" where
  "is_ascii c = (of_char c < (128 :: nat))"

definition parse_resource :: "(string \<Rightarrow> bytes option) \<Rightarrow> elem \<Rightarrow> error + pydict" where
  "parse_resource b64decode resource_elem =
     (let resource = [];
          resource = (case elem_find ''mime'' resource_elem of
                        Some mime_elem \<Rightarrow> dict_set ''mime'' (text_val (etext mime_elem)) resource
                      | None \<Rightarrow> resource);
          resource = (case elem_find ''resource-attributes'' resource_elem of
                        Some attrs \<Rightarrow>
                          (case elem_find ''file-name'' attrs of
                             Some filename_elem \<Rightarrow>
                               dict_set ''filename'' (text_val (etext filename_elem)) resource
                           | None \<Rightarrow> resource)
                      | None \<Rightarrow> resource)
      in (case elem_find ''data'' resource_elem of
            None \<Rightarrow> Inr resource
          | Some data_elem \<Rightarrow>
              (case etext data_elem of
                 None \<Rightarrow> Inr resource
               | Some data_text \<Rightarrow>
                   if map_of (eattrib data_elem) ''encoding'' = Some ''base64'' \<and> data_text \<noteq> []
                   then (case b64decode data_text of
                           None \<Rightarrow> Inl (if list_all is_ascii data_text then BinasciiError
                                        else ValueError)
                         | Some data \<Rightarrow> Inr (dict_set ''size'' (PInt (length data)) resource))
                   else Inr resource)))"

text \<open>The loop of \<open>_parse_note\<close> over the \<open><resource>\<close> elements (lines 73-77).\<close>

fun parse_resources :: "(string \<Rightarrow> bytes option) \<Rightarrow> elem list \<Rightarrow> pyval list \<Rightarrow> error + pyval list" where
  "parse_resources b64decode [] resources = Inr resources"
| "parse_resources b64decode (resource_elem # rest) resources =
     (case parse_resource b64decode resource_elem of
        Inl e \<Rightarrow> Inl e
      | Inr resource \<Rightarrow>
          parse_resources b64decode rest
            (if truthy (PDict resource) then resources @ [PDict resource] else resources))"

text \<open>\<open>_parse_note\<close>\<close>

definition parse_note ::
  "(string \<Rightarrow> bytes option) \<Rightarrow> (string \<Rightarrow> string option) \<Rightarrow> (string \<Rightarrow> string) \<Rightarrow> elem \<Rightarrow>
   error + pydict" where
  "parse_note b64decode strptime_iso unescape note_elem =
     (let note = [];
          note = dict_set ''title''
                   (case elem_find ''title'' note_elem of
                      Some title_elem \<Rightarrow> text_val (etext title_elem)
                    | None \<Rightarrow> PStr ''Untitled'') note;
          note = (case elem_find ''content'' note_elem of
                    Some content_elem \<Rightarrow>
                      dict_set ''content_text'' (PStr (html_to_text unescape (etext content_elem)))
                        (dict_set ''content_html'' (text_val (etext content_elem)) note)
                  | None \<Rightarrow>
                      dict_set ''content_text'' (PStr []) (dict_set ''content_html'' (PStr []) note));
          note = (case elem_find ''created'' note_elem of
                    Some created_elem \<Rightarrow>
                      dict_set ''created'' (parse_date strptime_iso (etext created_elem)) note
                  | None \<Rightarrow> note);
          note = (case elem_find ''updated'' note_elem of
                    Some updated_elem \<Rightarrow>
                      dict_set ''modified'' (parse_date strptime_iso (etext updated_elem)) note
                  | None \<Rightarrow> note);
          tags = map (\<lambda>tag_elem. text_val (etext tag_elem))
                   (filter (\<lambda>tag_elem. truthy (text_val (etext tag_elem)))
                      (elem_findall ''tag'' note_elem));
          note = dict_set ''tags'' (PList tags) note;
          note = (case elem_find ''note-attributes'' note_elem of
                    Some attrs \<Rightarrow> dict_set ''attributes'' (PDict (parse_attributes attrs)) note
                  | None \<Rightarrow> note)
      in (case parse_resources b64decode (elem_findall ''resource'' note_elem) [] of
            Inl e \<Rightarrow> Inl e
          | Inr resources \<Rightarrow> Inr (dict_set ''resources'' (PList resources) note)))"

text \<open>
  \<open>parse_enex_file\<close>, from the root element that \<open>ET.parse(file_path).getroot()\<close> gives:
  the loop over the \<open><note>\<close> children with its filter \<open>if note:\<close>.
\<close>

fun parse_notes ::
  "(string \<Rightarrow> bytes option) \<Rightarrow> (string \<Rightarrow> string option) \<Rightarrow> (string \<Rightarrow> string) \<Rightarrow>
   elem list \<Rightarrow> pydict list \<Rightarrow> error + pydict list" where
  "parse_notes b64decode strptime_iso unescape [] notes = Inr notes"
| "parse_notes b64decode strptime_iso unescape (note_elem # rest) notes =
     (case parse_note b64decode strptime_iso unescape note_elem of
        Inl e \<Rightarrow> Inl e
      | Inr note \<Rightarrow>
          parse_notes b64decode strptime_iso unescape rest
            (if truthy (PDict note) then notes @ [note] else notes))"

definition parse_enex_file ::
  "(string \<Rightarrow> bytes option) \<Rightarrow> (string \<Rightarrow> string option) \<Rightarrow> (string \<Rightarrow> string) \<Rightarrow> elem \<Rightarrow>
   error + pydict list" where
  "parse_enex_file b64decode strptime_iso unescape root =
     parse_notes b64decode strptime_iso unescape (elem_findall ''note'' root) []"

text \<open>
  The payload of a resource is valid base64 where \<open>_parse_resource\<close> decodes it: a
  \<open><data>\<close> element with encoding \<open>base64\<close> and non-empty text has text that
  \<open>b64decode\<close> accepts.
\<close>

definition payload_decodes :: "(string \<Rightarrow> bytes option) \<Rightarrow> elem \<Rightarrow> bool" where
  "payload_decodes b64decode resource_elem =
     (case elem_find ''data'' resource_elem of
        None \<Rightarrow> True
      | Some data_elem \<Rightarrow>
          (case etext data_elem of
             None \<Rightarrow> True
           | Some data_text \<Rightarrow>
               map_of (eattrib data_elem) ''encoding'' = Some ''base64'' \<and> data_text \<noteq> []
               \<longrightarrow> b64decode data_text \<noteq> None))"

text \<open>Every payload of every note of the root is valid in this sense.\<close>

definition payloads_decode :: "(string \<Rightarrow> bytes option) \<Rightarrow> elem \<Rightarrow> bool" where
  "payloads_decode b64decode root =
     (\<forall>note_elem \<in> set (elem_findall ''note'' root).
        \<forall>resource_elem \<in> set (elem_findall ''resource'' note_elem).
          payload_decodes b64decode resource_elem)"

text \<open>Example inputs of the parser.\<close>

definition example_strptime :: "string \<Rightarrow> string option" where
  "example_strptime s = (if s = ''20240115T120000'' then Some ''2024-01-15T12:00:00'' else None)"

definition example_note :: "string \<Rightarrow> string \<Rightarrow> elem list \<Rightarrow> elem" where
  "example_note title content resources =
     Elem ''note'' [] None
       ([Elem ''title'' [] (Some title) [],
         Elem ''content'' [] (Some content) [],
         Elem ''created'' [] (Some ''20240115T120000Z'') [],
         Elem ''tag'' [] (Some ''t1'') []] @ resources)"

definition example_root :: elem where
  "example_root =
     Elem ''en-export'' [] None
       [example_note ''A/B: Test'' ''<en-note>Hello<br/>World</en-note>'' [],
        Elem ''note'' [] None [],
        example_note ''Second'' ''&lt;b&gt;bold&lt;/b&gt;''
          [example_resource ''base64'' ''AQID'' ''image/png'' (Some ''a.png'')]]"

text \<open>A well-formed document whose second note has a payload that does not decode.\<close>

definition example_bad_root :: elem where
  "example_bad_root =
     Elem ''en-export'' [] None
       [example_note ''First'' ''<en-note>Hello</en-note>'' [],
        example_note ''Second'' ''x''
          [example_resource ''base64'' ''abc'' ''image/png'' None]]"


text \<open>
  \<open>re.search(r'<[^>]+>', s) is not None\<close>: some position of the text starts a tag.
\<close>

fun has_tag :: "string \<Rightarrow> bool" where
  "has_tag [] = False"
| "has_tag (c # cs) = (open_match ''<'' 1 (c # cs) \<noteq> None \<or> has_tag cs)"

abbreviation not_gt :: "char \<Rightarrow> bool" where
  "not_gt \<equiv> (\<lambda>x. x \<noteq> CHR ''>'')"

section \<open>EnhancedNoteExporter (enhanced\_note\_exporter.py)\<close>

text \<open>
  The dictionary that \<open>_extract_resource\<close> of the enhanced exporter returns (lines
  129-140). Every path that returns it sets the same ten keys, so it is a record; a field
  of type \<open>string option\<close> holds \<open>None\<close> or a string.
\<close>

record resource_info =
  ri_hash :: string
  ri_resource_hash :: "string option"
  ri_filename :: string
  ri_original_filename :: "string option"
  ri_mime_type :: string
  ri_size :: nat
  ri_file_path :: string
  ri_relative_path :: string
  ri_note_index :: nat
  ri_is_image :: bool

text \<open>
  \<open>_extract_resource\<close> of the enhanced exporter. Its lines up to the file write repeat
  those of the attachment extractor (without the warnings), so the model shares
  \<open>resource_payload\<close>, \<open>resource_mime_type\<close>, \<open>declared_filename\<close> and
  \<open>resolve_filename\<close>. \<open>resource_hash\<close> is \<open>data_elem.get('hash')\<close>. For an empty \<open><mime>\<close>
  element \<open>mime_type\<close> is \<open>None\<close> and \<open>mime_type.startswith\<close> raises after the file has been
  written.
\<close>

definition extract_resource_enh ::
  "(string \<Rightarrow> bytes option) \<Rightarrow> (bytes \<Rightarrow> string) \<Rightarrow> (string \<Rightarrow> bool) \<Rightarrow>
   elem \<Rightarrow> string \<Rightarrow> nat \<Rightarrow> (string \<rightharpoonup> bytes) \<Rightarrow>
   (error + resource_info option) \<times> (string \<rightharpoonup> bytes)" where
  "extract_resource_enh b64decode md5_hexdigest can_open resource_elem attachments_dir note_idx fs =
     (case resource_payload resource_elem of
        None \<Rightarrow> (Inr None, fs)
      | Some data_text \<Rightarrow>
         (case b64decode data_text of
            None \<Rightarrow> (Inr None, fs)
          | Some attachment_data \<Rightarrow>
             let data_hash = take 8 (md5_hexdigest attachment_data);
                 mime_type = resource_mime_type resource_elem;
                 filename = resolve_filename data_hash mime_type
                              (declared_filename resource_elem);
                 file_path = path_join attachments_dir filename
             in if \<not> can_open file_path then (Inl OSError, fs)
                else
                  let fs = fs(file_path \<mapsto> attachment_data);
                      resource_hash =
                        (case elem_find ''data'' resource_elem of
                           Some data_hash_elem \<Rightarrow> map_of (eattrib data_hash_elem) ''hash''
                         | None \<Rightarrow> None)
                  in (case mime_type of
                        None \<Rightarrow> (Inl AttributeError, fs)
                      | Some mime \<Rightarrow>
                          (Inr (Some \<lparr>ri_hash = data_hash,
                                       ri_resource_hash = resource_hash,
                                       ri_filename = filename,
                                       ri_original_filename = declared_filename resource_elem,
                                       ri_mime_type = mime,
                                       ri_size = length attachment_data,
                                       ri_file_path = file_path,
                                       ri_relative_path = ''attachments/'' @ filename,
                                       ri_note_index = note_idx,
                                       ri_is_image = starts_with ''image/'' mime\<rparr>),
                           fs))))"

text \<open>
  \<open>d.get(k, default)\<close> on the result of looking \<open>k\<close> up in \<open>d\<close>: the default is returned
  only for a missing key (\<open>None\<close>), never for a key whose value is \<open>None\<close>.
\<close>

definition dict_get :: "'v option \<Rightarrow> 'v \<Rightarrow> 'v" where
  "dict_get entry dflt = (case entry of None \<Rightarrow> dflt | Some v \<Rightarrow> v)"

text \<open>How an f-string formats \<open>None\<close> or a string.\<close>

definition py_format :: "string option \<Rightarrow> string" where
  "py_format v = (case v of None \<Rightarrow> ''None'' | Some s \<Rightarrow> s)"

text \<open>
  The paperclip U+1F4CE of the link label lies outside the modelled code points; it
  stands as the four bytes of its UTF-8 encoding, none of which is whitespace or occurs
  in a pattern.
\<close>

definition paperclip :: string where
  "paperclip = [CHR 0xF0, CHR 0x9F, CHR 0x93, CHR 0x8E]"

text \<open>\<open>re.search(r'hash="([^"]+)"', media_tag)\<close>: the group of the leftmost match.\<close>

fun hash_search :: "string \<Rightarrow> string option" where
  "hash_search [] = None"
| "hash_search (c # cs) =
     (if starts_with (''hash='' @ [CHR 0x22]) (c # cs) then
        let u = drop 6 (c # cs);
            h = takeWhile (\<lambda>x. x \<noteq> CHR 0x22) u
        in if h \<noteq> [] \<and> dropWhile (\<lambda>x. x \<noteq> CHR 0x22) u \<noteq> [] then Some h
           else hash_search cs
      else hash_search cs)"

text \<open>
  Lines 150-153: the lookup from declared hash to resource; a resource is entered when
  \<open>resource.get('resource_hash')\<close> is true, a later resource replaces an earlier one with
  the same hash.
\<close>

definition resource_lookup :: "resource_info list \<Rightarrow> (string \<rightharpoonup> resource_info)" where
  "resource_lookup resources =
     foldl (\<lambda>lookup resource.
              (case dict_get (Some (ri_resource_hash resource)) None of
                 None \<Rightarrow> lookup
               | Some h \<Rightarrow> if h = [] then lookup else lookup(h \<mapsto> resource)))
           Map.empty resources"

text \<open>\<open>replace_media\<close> (lines 159-177) on the matched tag.\<close>

definition replace_media :: "(string \<rightharpoonup> resource_info) \<Rightarrow> string \<Rightarrow> string" where
  "replace_media lookup media_tag =
     (case hash_search media_tag of
        None \<Rightarrow> [NL, NL] @ ''[Attachment]'' @ [NL, NL]
      | Some resource_hash \<Rightarrow>
          (case lookup resource_hash of
             None \<Rightarrow> [NL, NL] @ ''[Attachment]'' @ [NL, NL]
           | Some resource \<Rightarrow>
               if ri_is_image resource then
                 let alt_text = dict_get (Some (ri_original_filename resource)) (Some ''Image'')
                 in [NL, NL] @ ''!['' @ py_format alt_text @ '']('' @
                    ri_relative_path resource @ '')'' @ [NL, NL]
               else
                 let link_text = dict_get (Some (ri_original_filename resource))
                                   (Some ''Attachment'')
                 in [NL, NL] @ ''['' @ paperclip @ '' '' @ py_format link_text @ '']('' @
                    ri_relative_path resource @ '')'' @ [NL, NL]))"

text \<open>
  Lines 149-215 of \<open>_html_to_markdown_with_images\<close>: the rewrites of tags, in source
  order.
\<close>

definition markdown_tag_rewrites :: "resource_info list \<Rightarrow> string \<Rightarrow> string" where
  "markdown_tag_rewrites resources html_content =
     (let lookup = resource_lookup resources;
          text = sub_cdata html_content;
          text = sub_open ''<en-media'' 0 (replace_media lookup) text;
          text = sub_open ''<en-note'' 0 (\<lambda>m. []) text;
          text = replace_lit ''</en-note>'' [] text;
          text = sub_br [NL] text;
          text = sub_open ''<p'' 0 (\<lambda>m. [NL, NL]) text;
          text = replace_lit ''</p>'' [NL, NL] text;
          text = sub_open ''<div'' 0 (\<lambda>m. [NL, NL]) text;
          text = replace_lit ''</div>'' [NL, NL] text;
          text = sub_pair ''<h1'' ''</h1>'' (\<lambda>g. [NL, NL] @ ''# '' @ g @ [NL, NL]) text;
          text = sub_pair ''<h2'' ''</h2>'' (\<lambda>g. [NL, NL] @ ''## '' @ g @ [NL, NL]) text;
          text = sub_pair ''<h3'' ''</h3>'' (\<lambda>g. [NL, NL] @ ''### '' @ g @ [NL, NL]) text;
          text = sub_pair ''<strong'' ''</strong>'' (\<lambda>g. ''**'' @ g @ ''**'') text;
          text = sub_pair ''<b'' ''</b>'' (\<lambda>g. ''**'' @ g @ ''**'') text;
          text = sub_pair ''<em'' ''</em>'' (\<lambda>g. ''*'' @ g @ ''*'') text;
          text = sub_pair ''<i'' ''</i>'' (\<lambda>g. ''*'' @ g @ ''*'') text;
          text = sub_link text;
          text = sub_open ''<ul'' 0 (\<lambda>m. [NL]) text;
          text = replace_lit ''</ul>'' [NL] text;
          text = sub_open ''<ol'' 0 (\<lambda>m. [NL]) text;
          text = replace_lit ''</ol>'' [NL] text;
          text = sub_open ''<li'' 0 (\<lambda>m. [NL] @ ''- '') text;
          text = replace_lit ''</li>'' [] text;
          text = sub_open ''<'' 1 (\<lambda>m. []) text
      in text)"

text \<open>
  \<open>_html_to_markdown_with_images\<close>: the tag rewrites, then lines 217-225 in source order:
  the two whitespace rewrites, \<open>html.unescape\<close>, and \<open>strip()\<close>.
\<close>

definition html_to_markdown_with_images ::
  "(string \<Rightarrow> string) \<Rightarrow> string option \<Rightarrow> resource_info list \<Rightarrow> string" where
  "html_to_markdown_with_images unescape html_content resources =
     (case html_content of
        None \<Rightarrow> []
      | Some h \<Rightarrow>
          if h = [] then []
          else
            let text = markdown_tag_rewrites resources h;
                text = collapse_newlines 4 [NL, NL, NL] text;
                text = strip_trailing_blanks text;
                text = unescape text
            in strip_py text)"

text \<open>
  The order of the last steps in the words of the specification: step 5 decodes the
  entities, step 6 then collapses the newlines, strips the blanks before newlines and
  trims the document.
\<close>

definition spec_markup_conversion ::
  "(string \<Rightarrow> string) \<Rightarrow> string option \<Rightarrow> resource_info list \<Rightarrow> string" where
  "spec_markup_conversion unescape html_content resources =
     (case html_content of
        None \<Rightarrow> []
      | Some h \<Rightarrow>
          if h = [] then []
          else
            let text = markdown_tag_rewrites resources h;
                text = unescape text;
                text = collapse_newlines 4 [NL, NL, NL] text;
                text = strip_trailing_blanks text
            in strip_py text)"

definition example_media_body :: string where
  "example_media_body =
     ''<en-note><div>See</div><en-media hash='' @ [CHR 0x22] @ ''abc123'' @ [CHR 0x22] @
     '' type='' @ [CHR 0x22] @ ''image/png'' @ [CHR 0x22] @ ''/></en-note>''"

text \<open>The length of the run of newlines at the head of a text.\<close>

definition nl_run :: "string \<Rightarrow> nat" where
  "nl_run s = length (takeWhile (\<lambda>x. x = NL) s)"

text \<open>Some position of the text starts a run of at least \<open>k\<close> newlines.\<close>

fun has_nl_run :: "nat \<Rightarrow> string \<Rightarrow> bool" where
  "has_nl_run k [] = False"
| "has_nl_run k (c # cs) = (k \<le> nl_run (c # cs) \<or> has_nl_run k cs)"

text \<open>Some space or tab of the text stands directly before a newline.\<close>

fun blank_before_nl :: "string \<Rightarrow> bool" where
  "blank_before_nl (a # b # r) = ((is_blank a \<and> b = NL) \<or> blank_before_nl (b # r))"
| "blank_before_nl _ = False"

section \<open>The whitespace cleanup in the words of the specification\<close>

text \<open>
  The whitespace cleanup in the words of the amended specification, to be compared with
  the regular expressions of the code. A text is the sequence of its maximal runs of
  equal characters; collapsing replaces each run of four or more newlines by three
  newlines (two blank lines) and keeps every other run. Stripping the line ends removes
  the spaces and tabs at the end of every line that ends with a newline, that is of
  every line but the last.
\<close>

fun runs :: "string \<Rightarrow> (char \<times> nat) list" where
  "runs [] = []"
| "runs (c # cs) =
     (case runs cs of
        (d, n) # r \<Rightarrow> if c = d then (d, Suc n) # r else (c, 1) # (d, n) # r
      | [] \<Rightarrow> [(c, 1)])"

definition unruns :: "(char \<times> nat) list \<Rightarrow> string" where
  "unruns rs = concat (map (\<lambda>(c, n). replicate n c) rs)"

definition spec_collapse_blank_lines :: "string \<Rightarrow> string" where
  "spec_collapse_blank_lines s =
     unruns (map (\<lambda>(c, n). if c = NL \<and> 4 \<le> n then (NL, 3) else (c, n)) (runs s))"

definition rstrip_blanks :: "string \<Rightarrow> string" where
  "rstrip_blanks l = rev (dropWhile is_blank (rev l))"

fun strip_line_ends :: "string list \<Rightarrow> string list" where
  "strip_line_ends (l # m # r) = rstrip_blanks l # strip_line_ends (m # r)"
| "strip_line_ends ls = ls"

definition spec_strip_line_ends :: "string \<Rightarrow> string" where
  "spec_strip_line_ends s = join_strs [NL] (strip_line_ends (split_on NL s))"

section \<open>AttachmentExtractor.extract\_attachments\_from\_enex: the loop over the notes\<close>


section \<open>IndividualNoteExporter.export\_notes\_individually\<close>






























section \<open>Properties of attachment extraction\<close>

lemma split_on_nonempty: "split_on sep s \<noteq> []"
  by (induction s) (auto split: list.splits)

lemma split_on_append: "split_on sep (a @ sep # b) = split_on sep a @ split_on sep b"
  using split_on_nonempty[of sep] by (induction a) (auto split: list.splits)

lemma split_on_none: "sep \<notin> set b \<Longrightarrow> split_on sep b = [b]"
  by (induction b) auto

lemma join_strs_snoc: "ps \<noteq> [] \<Longrightarrow> join_strs sep (ps @ [b]) = join_strs sep ps @ sep @ b"
  by (induction sep ps rule: join_strs.induct) auto

lemma path_root_append:
  assumes "a \<noteq> []" and "last a \<noteq> CHR ''/''"
  shows "path_root (a @ CHR ''/'' # b) = path_root a"
proof (cases a)
  case Nil
  with assms show ?thesis by simp
next
  case (Cons x r)
  note c1 = Cons
  show ?thesis
  proof (cases r)
    case Nil
    with c1 assms show ?thesis by (simp add: path_root_def)
  next
    case (Cons y r2)
    note c2 = Cons
    show ?thesis
    proof (cases r2)
      case Nil
      with c1 c2 assms show ?thesis by (simp add: path_root_def)
    next
      case (Cons z r3)
      with c1 c2 show ?thesis by (simp add: path_root_def)
    qed
  qed
qed

text \<open>
  For a directory that is the string of a \<open>Path\<close> other than \<open>.\<close> and the root, and a name
  without a slash, \<open>pathlib\<close> joins the two with one slash.
\<close>

lemma path_join_plain:
  assumes a: "path_str a = a" and nd: "a \<noteq> ''.''" and nr: "last a \<noteq> CHR ''/''"
    and b: "CHR ''/'' \<notin> set b" and bn: "b \<noteq> []" and bd: "b \<noteq> ''.''"
  shows "path_join a b = a @ ''/'' @ b"
proof -
  have ane: "a \<noteq> []"
    using a by (auto simp: path_str_def path_parts_def path_root_def split: if_splits)
  have eq: "a = path_root a @ join_strs ''/'' (path_parts a)"
    using a nd by (auto simp: path_str_def split: if_splits)
  have pne: "path_parts a \<noteq> []"
  proof
    assume e: "path_parts a = []"
    with eq have "a = path_root a" by simp
    then have "a = ''//'' \<or> a = ''/'' \<or> a = []"
      by (metis path_root_def)
    with ane nr show False by auto
  qed
  have tb: "take 1 b \<noteq> ''/''"
    using b bn by (cases b) auto
  have j: "path_join a b = path_str (a @ CHR ''/'' # b)"
    using tb ane nr by (simp add: path_join_def)
  have r: "path_root (a @ CHR ''/'' # b) = path_root a"
    using ane nr by (rule path_root_append)
  have p: "path_parts (a @ CHR ''/'' # b) = path_parts a @ [b]"
    using b bn bd by (simp add: path_parts_def split_on_append split_on_none)
  have "path_str (a @ CHR ''/'' # b) = path_root a @ join_strs ''/'' (path_parts a @ [b])"
    unfolding path_str_def r p by simp
  also have "\<dots> = path_root a @ join_strs ''/'' (path_parts a) @ ''/'' @ b"
    using pne by (simp add: join_strs_snoc)
  also have "\<dots> = a @ ''/'' @ b"
    using eq by simp
  finally show ?thesis using j by simp
qed

lemma path_join_att: "path_join ''att'' ''5289df73.png'' = ''att/5289df73.png''"
  by code_simp

lemma rsplit_dot_join:
  assumes "CHR ''.'' \<in> set s"
  shows "before_last_dot s @ ''.'' @ after_last_dot s = s"
proof -
  let ?P = "\<lambda>x. x \<noteq> CHR ''.''"
  have ne: "dropWhile ?P (rev s) \<noteq> []"
    using assms by (simp add: dropWhile_eq_Nil_conv)
  then have "hd (dropWhile ?P (rev s)) = CHR ''.''"
    using hd_dropWhile[OF ne] by simp
  with ne have "dropWhile ?P (rev s) = CHR ''.'' # tl (dropWhile ?P (rev s))"
    by (cases "dropWhile ?P (rev s)") auto
  moreover have "rev s = takeWhile ?P (rev s) @ dropWhile ?P (rev s)"
    by simp
  ultimately have "rev (rev s) = rev (takeWhile ?P (rev s) @ CHR ''.'' # tl (dropWhile ?P (rev s)))"
    by simp
  then show ?thesis
    by (simp add: before_last_dot_def after_last_dot_def)
qed

lemma hash_prefix_branches:
  "(case rsplit_dot c of [p0, p1] \<Rightarrow> h @ ''_'' @ p0 @ ''.'' @ p1 | _ \<Rightarrow> h @ ''_'' @ c)
   = h @ ''_'' @ c"
  using rsplit_dot_join[of c]
  by (simp add: rsplit_dot_def before_last_dot_def after_last_dot_def)

lemma resolve_filename_declared:
  "fn \<noteq> [] \<Longrightarrow> resolve_filename h m (Some fn) = h @ ''_'' @ spec_declared_name fn"
  unfolding resolve_filename_def spec_declared_name_def Let_def
  apply (simp only: hash_prefix_branches option.case if_False)
  apply (simp add: rsplit_dot_def remove_char_def before_last_dot_def after_last_dot_def
                   conj_commute)
  done

lemma resolve_filename_undeclared:
  "fn = None \<or> fn = Some [] \<Longrightarrow>
   resolve_filename h m fn = h @ get_extension_from_mime m"
  by (auto simp: resolve_filename_def)

lemma extract_resource_success:
  assumes "resource_payload r = Some t" and "b64decode t = Some data"
    and "can_open (path_join dir (resolve_filename (take 8 (md5 data)) (resource_mime_type r)
                                   (declared_filename r)))"
  shows "extract_resource b64decode md5 can_open r dir idx fs =
     (Inr (Some \<lparr>ai_hash = take 8 (md5 data),
                 ai_filename = resolve_filename (take 8 (md5 data)) (resource_mime_type r)
                                 (declared_filename r),
                 ai_original_filename = declared_filename r,
                 ai_mime_type = resource_mime_type r,
                 ai_size = length data,
                 ai_file_path = path_join dir (resolve_filename (take 8 (md5 data))
                                  (resource_mime_type r) (declared_filename r)),
                 ai_note_index = idx\<rparr>),
      fs(path_join dir (resolve_filename (take 8 (md5 data)) (resource_mime_type r)
                        (declared_filename r)) \<mapsto> data))"
  using assms by (simp add: extract_resource_def Let_def)

lemma mime_table_unknown:
  "m \<notin> fst ` set mime_to_ext \<Longrightarrow> get_extension_from_mime (Some m) = ''.bin''"
  by (simp add: get_extension_from_mime_def map_of_eq_None_iff[THEN iffD2])

lemma mime_table_known:
  "(m, e) \<in> set mime_to_ext \<Longrightarrow> get_extension_from_mime (Some m) = e"
proof -
  assume "(m, e) \<in> set mime_to_ext"
  moreover have "distinct (map fst mime_to_ext)"
    by (simp add: mime_to_ext_def)
  ultimately show ?thesis
    by (simp add: get_extension_from_mime_def)
qed

text \<open>
  C2. When the payload of a resource is base64 text that decodes and its file can be
  written, extraction returns a dictionary whose \<open>hash\<close> is the first 8 characters of
  the MD5 hex digest of the decoded bytes. Two resources whose payloads decode to the
  same bytes therefore get the same hash, whatever their file names, MIME types and
  directories are.
\<close>

theorem content_hash_is_md5_prefix:
  assumes "resource_payload r1 = Some t1" and "b64decode t1 = Some data"
    and "resource_payload r2 = Some t2" and "b64decode t2 = Some data"
    and "can_open (path_join dir1 (resolve_filename (take 8 (md5 data)) (resource_mime_type r1)
                                    (declared_filename r1)))"
    and "can_open (path_join dir2 (resolve_filename (take 8 (md5 data)) (resource_mime_type r2)
                                    (declared_filename r2)))"
  shows "\<exists>i1 i2 fs1' fs2'.
           extract_resource b64decode md5 can_open r1 dir1 n1 fs1 = (Inr (Some i1), fs1') \<and>
           extract_resource b64decode md5 can_open r2 dir2 n2 fs2 = (Inr (Some i2), fs2') \<and>
           ai_hash i1 = take 8 (md5 data) \<and> ai_hash i2 = ai_hash i1"
  using assms by (simp add: extract_resource_def Let_def)

theorem content_hash_is_md5_prefix_witness:
  "resource_payload (example_resource ''base64'' ''AQID'' ''image/png'' (Some ''a.png''))
     = Some ''AQID'' \<and>
   resource_payload (example_resource ''base64'' ''AQID'' ''text/plain'' None) = Some ''AQID'' \<and>
   example_b64decode ''AQID'' = Some [1, 2, 3] \<and>
   (\<exists>i1 i2 fs1' fs2'.
      extract_resource example_b64decode example_md5 (\<lambda>p. True)
        (example_resource ''base64'' ''AQID'' ''image/png'' (Some ''a.png'')) ''att'' 1 Map.empty
        = (Inr (Some i1), fs1') \<and>
      extract_resource example_b64decode example_md5 (\<lambda>p. True)
        (example_resource ''base64'' ''AQID'' ''text/plain'' None) ''att'' 2 Map.empty
        = (Inr (Some i2), fs2') \<and>
      ai_hash i1 = ''5289df73'' \<and> ai_hash i2 = ai_hash i1)"
proof -
  have p1: "resource_payload (example_resource ''base64'' ''AQID'' ''image/png'' (Some ''a.png''))
              = Some ''AQID''"
    by (simp add: example_defs)
  have p2: "resource_payload (example_resource ''base64'' ''AQID'' ''text/plain'' None)
              = Some ''AQID''"
    by (simp add: example_defs)
  have d: "example_b64decode ''AQID'' = Some [1, 2, 3]"
    by (simp add: example_defs)
  show ?thesis
    using content_hash_is_md5_prefix[where b64decode=example_b64decode
            and can_open="\<lambda>p. True" and ?md5.0=example_md5
            and ?r1.0="example_resource ''base64'' ''AQID'' ''image/png'' (Some ''a.png'')"
            and ?r2.0="example_resource ''base64'' ''AQID'' ''text/plain'' None"
            and ?t1.0="''AQID''" and ?t2.0="''AQID''" and data="[1, 2, 3]"
            and ?dir1.0="''att''" and ?dir2.0="''att''" and ?n1.0=1 and ?n2.0=2
            and ?fs1.0=Map.empty and ?fs2.0=Map.empty]
          p1 p2 d
    by (simp add: example_md5_def)
qed

text \<open>
  C4. When a resource declares a non-empty file name, its payload decodes and its file
  can be written, the resolved file name is the content hash, an underscore, and the
  declared name cleaned as the specification says: newlines and carriage returns removed,
  surrounding whitespace stripped, and above 50 characters the stem before the last dot
  cut to 40 characters with the extension kept, or the whole name cut to 50 characters
  when it has no dot. The bytes are written at the path that \<open>pathlib\<close> joins from the
  attachments directory and this name; for a name without a slash that is the directory,
  a slash, and the name.
\<close>

theorem declared_filename_resolution:
  assumes "resource_payload r = Some t" and "b64decode t = Some data"
    and "declared_filename r = Some fn" and "fn \<noteq> []"
    and "can_open (path_join dir (take 8 (md5 data) @ ''_'' @ spec_declared_name fn))"
  shows "\<exists>info fs'.
           extract_resource b64decode md5 can_open r dir n fs = (Inr (Some info), fs') \<and>
           ai_hash info = take 8 (md5 data) \<and>
           ai_filename info = ai_hash info @ ''_'' @ spec_declared_name fn \<and>
           ai_file_path info = path_join dir (ai_filename info) \<and>
           fs' (ai_file_path info) = Some data \<and>
           (path_str dir = dir \<and> dir \<noteq> ''.'' \<and> last dir \<noteq> CHR ''/'' \<and>
            CHR ''/'' \<notin> set (ai_filename info)
            \<longrightarrow> ai_file_path info = dir @ ''/'' @ ai_filename info)"
proof -
  let ?f = "take 8 (md5 data) @ ''_'' @ spec_declared_name fn"
  have plain: "path_str dir = dir \<and> dir \<noteq> ''.'' \<and> last dir \<noteq> CHR ''/'' \<and> CHR ''/'' \<notin> set ?f
               \<longrightarrow> path_join dir ?f = dir @ ''/'' @ ?f"
  proof
    assume h: "path_str dir = dir \<and> dir \<noteq> ''.'' \<and> last dir \<noteq> CHR ''/'' \<and> CHR ''/'' \<notin> set ?f"
    have ne: "?f \<noteq> []" by simp
    have nd: "?f \<noteq> ''.''"
    proof
      assume "?f = ''.''"
      then have "set ?f = set ''.''" by (rule arg_cong)
      then show False by auto
    qed
    from h ne nd show "path_join dir ?f = dir @ ''/'' @ ?f"
      using path_join_plain[of dir ?f] by blast
  qed
  have e: "extract_resource b64decode md5 can_open r dir n fs =
     (Inr (Some \<lparr>ai_hash = take 8 (md5 data), ai_filename = ?f,
                 ai_original_filename = declared_filename r,
                 ai_mime_type = resource_mime_type r, ai_size = length data,
                 ai_file_path = path_join dir ?f, ai_note_index = n\<rparr>),
      fs(path_join dir ?f \<mapsto> data))"
    using assms by (simp add: extract_resource_def Let_def resolve_filename_declared)
  show ?thesis
    unfolding e using plain by simp
qed

theorem declared_filename_resolution_witness:
  "resource_payload (example_resource ''base64'' ''AQID'' ''application/x-tar''
      (Some (''  '' @ replicate 60 (CHR ''a'') @ ''.tar.gz '' @ [NL]))) = Some ''AQID'' \<and>
   example_b64decode ''AQID'' = Some [1, 2, 3] \<and>
   declared_filename (example_resource ''base64'' ''AQID'' ''application/x-tar''
      (Some (''  '' @ replicate 60 (CHR ''a'') @ ''.tar.gz '' @ [NL])))
     = Some (''  '' @ replicate 60 (CHR ''a'') @ ''.tar.gz '' @ [NL]) \<and>
   path_str ''att'' = ''att'' \<and>
   (\<exists>info fs'.
      extract_resource example_b64decode example_md5 (\<lambda>p. True)
        (example_resource ''base64'' ''AQID'' ''application/x-tar''
           (Some (''  '' @ replicate 60 (CHR ''a'') @ ''.tar.gz '' @ [NL]))) ''att'' 1 Map.empty
        = (Inr (Some info), fs') \<and>
      ai_filename info = ''5289df73_'' @ replicate 40 (CHR ''a'') @ ''.gz'' \<and>
      ai_file_path info = ''att/5289df73_'' @ replicate 40 (CHR ''a'') @ ''.gz'' \<and>
      fs' (''att/5289df73_'' @ replicate 40 (CHR ''a'') @ ''.gz'') = Some [1, 2, 3])"
proof -
  let ?fn = "''  '' @ replicate 60 (CHR ''a'') @ ''.tar.gz '' @ [NL]"
  let ?r = "example_resource ''base64'' ''AQID'' ''application/x-tar'' (Some ?fn)"
  have p: "resource_payload ?r = Some ''AQID''"
    by (simp add: example_defs)
  have d: "example_b64decode ''AQID'' = Some [1, 2, 3]"
    by (simp add: example_defs)
  have f: "declared_filename ?r = Some ?fn"
    by (simp add: example_defs)
  have c: "spec_declared_name ?fn = replicate 40 (CHR ''a'') @ ''.gz''"
    by (simp add: spec_declared_name_def strip_py_def is_space_def before_last_dot_def
                  after_last_dot_def Let_def)
  have a: "path_str ''att'' = ''att''"
    by code_simp
  have m: "take 8 (example_md5 [1, 2, 3]) = ''5289df73''"
    by (simp add: example_md5_def)
  have s: "CHR ''/'' \<notin> set (''5289df73_'' @ replicate 40 (CHR ''a'') @ ''.gz'')"
    by simp
  obtain info fs' where
    e: "extract_resource example_b64decode example_md5 (\<lambda>p. True) ?r ''att'' 1 Map.empty
          = (Inr (Some info), fs')"
    and n: "ai_filename info = ai_hash info @ ''_'' @ spec_declared_name ?fn"
    and h: "ai_hash info = take 8 (example_md5 [1, 2, 3])"
    and w: "fs' (ai_file_path info) = Some [1, 2, 3]"
    and i: "path_str ''att'' = ''att'' \<and> ''att'' \<noteq> ''.'' \<and> last ''att'' \<noteq> CHR ''/'' \<and>
            CHR ''/'' \<notin> set (ai_filename info)
            \<longrightarrow> ai_file_path info = ''att'' @ ''/'' @ ai_filename info"
    using declared_filename_resolution[where b64decode=example_b64decode
            and can_open="\<lambda>p. True" and ?md5.0=example_md5 and r="?r" and t="''AQID''"
            and data="[1, 2, 3]" and fn="?fn" and dir="''att''" and n=1 and fs=Map.empty]
          p d f
    by blast
  have n': "ai_filename info = ''5289df73_'' @ replicate 40 (CHR ''a'') @ ''.gz''"
    using n h m c by simp
  have q: "ai_file_path info = ''att/5289df73_'' @ replicate 40 (CHR ''a'') @ ''.gz''"
    using i a s n' by simp
  show ?thesis
    using p d f a e n' q w by auto
qed

text \<open>
  C5 (as amended). When a resource declares no file name (none, or an empty one), its
  payload decodes and its file can be written, the name used on disk is the content hash
  followed by the extension of its MIME type. The extension comes from a table of
  fifteen distinct MIME types; every type outside the table, and a missing type, gives
  \<open>.bin\<close>.
\<close>

theorem undeclared_filename_resolution:
  assumes "resource_payload r = Some t" and "b64decode t = Some data"
    and "declared_filename r = None \<or> declared_filename r = Some []"
    and "can_open (path_join dir (take 8 (md5 data) @
                     get_extension_from_mime (resource_mime_type r)))"
  shows "(\<exists>info fs'.
            extract_resource b64decode md5 can_open r dir n fs = (Inr (Some info), fs') \<and>
            ai_hash info = take 8 (md5 data) \<and>
            ai_mime_type info = resource_mime_type r \<and>
            ai_filename info = ai_hash info @ get_extension_from_mime (ai_mime_type info)) \<and>
         length mime_to_ext = 15 \<and> distinct (map fst mime_to_ext) \<and>
         (\<forall>(m, e) \<in> set mime_to_ext. get_extension_from_mime (Some m) = e) \<and>
         (\<forall>m. m \<notin> fst ` set mime_to_ext \<longrightarrow> get_extension_from_mime (Some m) = ''.bin'') \<and>
         get_extension_from_mime None = ''.bin''"
proof -
  have "resolve_filename (take 8 (md5 data)) (resource_mime_type r) (declared_filename r)
          = take 8 (md5 data) @ get_extension_from_mime (resource_mime_type r)"
    using assms(3) by (rule resolve_filename_undeclared)
  then have "\<exists>info fs'.
            extract_resource b64decode md5 can_open r dir n fs = (Inr (Some info), fs') \<and>
            ai_hash info = take 8 (md5 data) \<and>
            ai_mime_type info = resource_mime_type r \<and>
            ai_filename info = ai_hash info @ get_extension_from_mime (ai_mime_type info)"
    using assms(1,2,4) by (simp add: extract_resource_def Let_def)
  moreover have "length mime_to_ext = 15 \<and> distinct (map fst mime_to_ext)"
    by (simp add: mime_to_ext_def)
  moreover have "\<forall>(m, e) \<in> set mime_to_ext. get_extension_from_mime (Some m) = e"
    using mime_table_known by blast
  moreover have "\<forall>m. m \<notin> fst ` set mime_to_ext \<longrightarrow> get_extension_from_mime (Some m) = ''.bin''"
    using mime_table_unknown by blast
  moreover have "get_extension_from_mime None = ''.bin''"
    by (simp add: get_extension_from_mime_def)
  ultimately show ?thesis by blast
qed

theorem undeclared_filename_resolution_witness:
  "resource_payload (example_resource ''base64'' ''AQID'' ''image/png'' None) = Some ''AQID'' \<and>
   example_b64decode ''AQID'' = Some [1, 2, 3] \<and>
   declared_filename (example_resource ''base64'' ''AQID'' ''image/png'' None) = None \<and>
   (\<exists>info fs'.
      extract_resource example_b64decode example_md5 (\<lambda>p. True)
        (example_resource ''base64'' ''AQID'' ''image/png'' None) ''att'' 1 Map.empty
        = (Inr (Some info), fs') \<and>
      ai_filename info = ''5289df73.png'') \<and>
   ''application/x-tar'' \<notin> fst ` set mime_to_ext \<and>
   get_extension_from_mime (Some ''application/x-tar'') = ''.bin''"
proof -
  let ?r = "example_resource ''base64'' ''AQID'' ''image/png'' None"
  have p: "resource_payload ?r = Some ''AQID''"
    by (simp add: example_defs)
  have d: "example_b64decode ''AQID'' = Some [1, 2, 3]"
    by (simp add: example_defs)
  have f: "declared_filename ?r = None"
    by (simp add: example_defs)
  have m: "resource_mime_type ?r = Some ''image/png''"
    by (simp add: example_defs)
  have e: "get_extension_from_mime (Some ''image/png'') = ''.png''"
    by (simp add: get_extension_from_mime_def mime_to_ext_def)
  have u: "''application/x-tar'' \<notin> fst ` set mime_to_ext"
    by (simp add: mime_to_ext_def)
  show ?thesis
    using undeclared_filename_resolution[where b64decode=example_b64decode
            and can_open="\<lambda>p. True" and ?md5.0=example_md5 and r="?r" and t="''AQID''"
            and data="[1, 2, 3]" and dir="''att''" and n=1 and fs=Map.empty]
          p d f m e u
    by (auto simp: example_md5_def)
qed

text \<open>
  The table does not have fourteen entries.
\<close>

theorem mime_table_fourteen_counterexample:
  "card (dom (map_of mime_to_ext)) \<noteq> 14"
proof -
  have "distinct (map fst mime_to_ext)" and "length (map fst mime_to_ext) = 15"
    by (simp_all add: mime_to_ext_def)
  then have "card (set (map fst mime_to_ext)) = 15"
    using distinct_card by fastforce
  then show ?thesis
    by (simp add: dom_map_of_conv_image_fst)
qed

text \<open>
  C9. A resource whose \<open><data>\<close> element is absent, has no text or empty text, whose
  \<open>encoding\<close> attribute is not \<open>base64\<close>, or whose text fails to decode, yields no
  dictionary and leaves the attachments directory as it was; the loop over the
  resources of the note goes on with the remaining ones exactly as if the resource had
  not been there, and no exception is raised for it.
\<close>

theorem bad_resource_is_skipped:
  assumes "elem_find ''data'' r = None \<or>
           (\<exists>d. elem_find ''data'' r = Some d \<and>
                (etext d = None \<or> etext d = Some [] \<or>
                 elem_get d ''encoding'' [] \<noteq> ''base64'' \<or>
                 (\<exists>t. etext d = Some t \<and> b64decode t = None)))"
  shows "extract_resource b64decode md5 can_open r dir n fs = (Inr None, fs) \<and>
         extract_note_resources b64decode md5 can_open dir n (r # rest) (atts, amap, fs)
           = extract_note_resources b64decode md5 can_open dir n rest (atts, amap, fs)"
proof -
  have "extract_resource b64decode md5 can_open r dir n fs = (Inr None, fs)"
    using assms
    by (auto simp: extract_resource_def resource_payload_def split: option.splits)
  then show ?thesis by simp
qed

theorem bad_resource_is_skipped_witness:
  "elem_find ''data'' (example_resource ''plain'' ''AQID'' ''image/png'' None)
     = Some (Elem ''data'' [(''encoding'', ''plain''), (''hash'', ''abc123'')] (Some ''AQID'') []) \<and>
   elem_get (Elem ''data'' [(''encoding'', ''plain''), (''hash'', ''abc123'')] (Some ''AQID'') [])
     ''encoding'' [] \<noteq> ''base64'' \<and>
   extract_resource example_b64decode example_md5 (\<lambda>p. True)
     (example_resource ''plain'' ''AQID'' ''image/png'' None) ''att'' 1 Map.empty
     = (Inr None, Map.empty) \<and>
   (\<exists>info fs'.
      extract_note_resources example_b64decode example_md5 (\<lambda>p. True) ''att'' 1
        [example_resource ''plain'' ''AQID'' ''image/png'' None,
         example_resource ''base64'' ''abc'' ''image/png'' None,
         example_resource ''base64'' ''AQID'' ''image/png'' None] ([], Map.empty, Map.empty)
      = Inr ([info], [''5289df73'' \<mapsto> info], fs') \<and>
      ai_filename info = ''5289df73.png'' \<and> dom fs' = {''att/5289df73.png''})"
proof -
  let ?d = "Elem ''data'' [(''encoding'', ''plain''), (''hash'', ''abc123'')] (Some ''AQID'') []"
  let ?r1 = "example_resource ''plain'' ''AQID'' ''image/png'' None"
  let ?r2 = "example_resource ''base64'' ''abc'' ''image/png'' None"
  let ?r3 = "example_resource ''base64'' ''AQID'' ''image/png'' None"
  have a: "elem_find ''data'' ?r1 = Some ?d"
    by (simp add: example_defs)
  have b: "elem_get ?d ''encoding'' [] \<noteq> ''base64''"
    by (simp add: elem_get_def)
  have c: "\<exists>d. elem_find ''data'' ?r2 = Some d \<and> (\<exists>t. etext d = Some t \<and> example_b64decode t = None)"
    by (simp add: example_defs)
  have s1: "extract_resource example_b64decode example_md5 (\<lambda>p. True) ?r1 ''att'' 1 Map.empty
              = (Inr None, Map.empty) \<and>
            extract_note_resources example_b64decode example_md5 (\<lambda>p. True) ''att'' 1
              (?r1 # [?r2, ?r3]) ([], Map.empty, Map.empty)
            = extract_note_resources example_b64decode example_md5 (\<lambda>p. True) ''att'' 1
              [?r2, ?r3] ([], Map.empty, Map.empty)"
    using bad_resource_is_skipped[where r="?r1" and b64decode=example_b64decode] a b by blast
  have s2: "extract_note_resources example_b64decode example_md5 (\<lambda>p. True) ''att'' 1
              (?r2 # [?r3]) ([], Map.empty, Map.empty)
            = extract_note_resources example_b64decode example_md5 (\<lambda>p. True) ''att'' 1
              [?r3] ([], Map.empty, Map.empty)"
    using bad_resource_is_skipped[where r="?r2" and b64decode=example_b64decode] c by blast
  have p: "resource_payload ?r3 = Some ''AQID''"
    by (simp add: example_defs)
  have d: "example_b64decode ''AQID'' = Some [1, 2, 3]"
    by (simp add: example_defs)
  have f: "resolve_filename ''5289df73'' (resource_mime_type ?r3) (declared_filename ?r3)
             = ''5289df73.png''"
    by (simp add: example_defs resolve_filename_def get_extension_from_mime_def mime_to_ext_def)
  have s3: "extract_resource example_b64decode example_md5 (\<lambda>p. True) ?r3 ''att'' 1 Map.empty
     = (Inr (Some \<lparr>ai_hash = ''5289df73'', ai_filename = ''5289df73.png'',
                   ai_original_filename = declared_filename ?r3,
                   ai_mime_type = resource_mime_type ?r3, ai_size = 3,
                   ai_file_path = ''att/5289df73.png'', ai_note_index = 1\<rparr>),
        [''att/5289df73.png'' \<mapsto> [1, 2, 3]])"
    using p d f by (simp add: extract_resource_def Let_def example_md5_def path_join_att)
  show ?thesis
    using a b s1 s2 s3 by simp
qed

section \<open>Properties of note file names\<close>



















lemma strip_py_ends:
  "strip_py s \<noteq> [] \<Longrightarrow> \<not> is_space (hd (strip_py s)) \<and> \<not> is_space (last (strip_py s))"
proof -
  assume ne: "strip_py s \<noteq> []"
  let ?a = "dropWhile is_space s"
  let ?b = "dropWhile is_space (rev ?a)"
  have b: "?b \<noteq> []" using ne by (simp add: strip_py_def)
  then have l: "\<not> is_space (hd ?b)" using hd_dropWhile by blast
  have a: "?a \<noteq> []" using b by (cases "dropWhile is_space s") simp_all
  then have ha: "\<not> is_space (hd ?a)" using hd_dropWhile by blast
  have "rev ?a = takeWhile is_space (rev ?a) @ ?b" by simp
  then have "?a = rev ?b @ rev (takeWhile is_space (rev ?a))"
    by (metis rev_append rev_rev_ident)
  then have "hd ?a = hd (rev ?b)" using b by (metis hd_append rev_is_Nil_conv)
  with ha l b show ?thesis by (simp add: strip_py_def hd_rev last_rev)
qed




















section \<open>Properties of the plain-text conversion\<close>

lemma tag_open_none_iff:
  "open_match ''<'' (Suc 0) (c # cs) = None \<longleftrightarrow>
     c \<noteq> CHR ''<'' \<or> cs = [] \<or> hd cs = CHR ''>'' \<or> CHR ''>'' \<notin> set cs"
proof -
  have t: "takeWhile not_gt cs = [] \<longleftrightarrow> cs = [] \<or> hd cs = CHR ''>''"
    by (cases cs) auto
  have d: "dropWhile not_gt cs = [] \<longleftrightarrow> CHR ''>'' \<notin> set cs"
    by (auto simp: dropWhile_eq_Nil_conv)
  have l: "Suc 0 \<le> length (takeWhile not_gt cs) \<longleftrightarrow> takeWhile not_gt cs \<noteq> []"
    by (cases "takeWhile not_gt cs") simp_all
  have "open_match ''<'' (Suc 0) (c # cs) = None \<longleftrightarrow>
        \<not> (c = CHR ''<'' \<and> Suc 0 \<le> length (takeWhile not_gt cs) \<and> dropWhile not_gt cs \<noteq> [])"
    by (simp add: open_match_def starts_with_def Let_def)
  then show ?thesis
    unfolding l t d by simp
qed

lemma set_open_match_rest:
  assumes "open_match lit least s = Some (m, rest)"
  shows "set rest \<subseteq> set s"
proof -
  from assms have r: "rest = tl (dropWhile not_gt (drop (length lit) s))"
    by (auto simp: open_match_def Let_def split: if_splits)
  show ?thesis
  proof
    fix x assume "x \<in> set rest"
    then have "x \<in> set (dropWhile not_gt (drop (length lit) s))"
      unfolding r by (cases "dropWhile not_gt (drop (length lit) s)") simp_all
    then have "x \<in> set (drop (length lit) s)"
      by (rule set_dropWhileD)
    then show "x \<in> set s"
      by (rule in_set_dropD)
  qed
qed

lemma set_sub_open_erase: "set (sub_open lit least (\<lambda>m. []) s) \<subseteq> set s"
proof (induction s rule: length_induct)
  case (1 s)
  show ?case
  proof (cases s)
    case Nil
    then show ?thesis by simp
  next
    case (Cons c cs)
    show ?thesis
    proof (cases "open_match lit least (c # cs)")
      case None
      have "set (sub_open lit least (\<lambda>m. []) cs) \<subseteq> set cs"
        using 1 Cons by simp
      with None Cons show ?thesis by auto
    next
      case (Some p)
      obtain m rest where p: "p = (m, rest)" by (cases p)
      have "length rest < length s"
        using length_open_match[of lit least "c # cs" m rest] Some p Cons by simp
      then have "set (sub_open lit least (\<lambda>m. []) rest) \<subseteq> set rest"
        using 1 by simp
      moreover have "set rest \<subseteq> set (c # cs)"
        using set_open_match_rest[of lit least "c # cs" m rest] Some p by simp
      ultimately have "set (sub_open lit least (\<lambda>m. []) rest) \<subseteq> set (c # cs)"
        by (rule subset_trans)
      then show ?thesis using Some p Cons by simp
    qed
  qed
qed

lemma hd_sub_open_gt:
  "sub_open ''<'' (Suc 0) f (CHR ''>'' # cs) = CHR ''>'' # sub_open ''<'' (Suc 0) f cs"
  by (simp add: open_match_def starts_with_def)

lemma no_tag_sub_open: "\<not> has_tag (sub_open ''<'' (Suc 0) (\<lambda>m. []) s)"
proof (induction s rule: length_induct)
  case (1 s)
  show ?case
  proof (cases s)
    case Nil
    then show ?thesis by simp
  next
    case (Cons c cs)
    have ih: "\<not> has_tag (sub_open ''<'' (Suc 0) (\<lambda>m. []) cs)"
      using 1 Cons by simp
    show ?thesis
    proof (cases "open_match ''<'' (Suc 0) (c # cs)")
      case (Some p)
      obtain m rest where p: "p = (m, rest)" by (cases p)
      have "length rest < length s"
        using length_open_match[of "''<''" "Suc 0" "c # cs" m rest] Some p Cons by simp
      then have "\<not> has_tag (sub_open ''<'' (Suc 0) (\<lambda>m. []) rest)"
        using 1 by simp
      then show ?thesis using Some p Cons by simp
    next
      case None
      then have "c \<noteq> CHR ''<'' \<or> cs = [] \<or> hd cs = CHR ''>'' \<or> CHR ''>'' \<notin> set cs"
        by (simp only: tag_open_none_iff)
      then have "open_match ''<'' (Suc 0) (c # sub_open ''<'' (Suc 0) (\<lambda>m. []) cs) = None"
      proof (elim disjE)
        assume "c \<noteq> CHR ''<''"
        then show ?thesis by (simp only: tag_open_none_iff) simp
      next
        assume "cs = []"
        then show ?thesis by (simp only: tag_open_none_iff) simp
      next
        assume h: "hd cs = CHR ''>''"
        show ?thesis
        proof (cases cs)
          case Nil
          then show ?thesis by (simp only: tag_open_none_iff) simp
        next
          case (Cons d ds)
          with h have "sub_open ''<'' (Suc 0) (\<lambda>m. []) cs
                         = CHR ''>'' # sub_open ''<'' (Suc 0) (\<lambda>m. []) ds"
            by (simp only: list.sel hd_sub_open_gt)
          then show ?thesis by (simp only: tag_open_none_iff list.sel) simp
        qed
      next
        assume "CHR ''>'' \<notin> set cs"
        then have "CHR ''>'' \<notin> set (sub_open ''<'' (Suc 0) (\<lambda>m. []) cs)"
          using set_sub_open_erase[of "''<''" "Suc 0" cs] by blast
        then show ?thesis by (simp only: tag_open_none_iff) simp
      qed
      then show ?thesis using ih None Cons by simp
    qed
  qed
qed

lemma has_tag_Cons_other: "c \<noteq> CHR ''<'' \<Longrightarrow> has_tag (c # cs) = has_tag cs"
  using tag_open_none_iff[of c cs] by simp

lemma has_tag_append_right: "has_tag q \<Longrightarrow> has_tag (p @ q)"
  by (induction p) simp_all

lemma tag_open_append:
  assumes "open_match ''<'' (Suc 0) (c # cs) \<noteq> None"
  shows "open_match ''<'' (Suc 0) (c # cs @ q) \<noteq> None"
proof -
  from assms have c: "c = CHR ''<''" and ne: "cs \<noteq> []" and h: "hd cs \<noteq> CHR ''>''"
    and g: "CHR ''>'' \<in> set cs"
    using tag_open_none_iff[of c cs] by auto
  have "hd (cs @ q) \<noteq> CHR ''>''" using ne h by simp
  moreover have "CHR ''>'' \<in> set (cs @ q)" using g by simp
  moreover have "cs @ q \<noteq> []" using ne by simp
  ultimately show ?thesis
    using c tag_open_none_iff[of c "cs @ q"] by simp
qed

lemma has_tag_append_left: "has_tag p \<Longrightarrow> has_tag (p @ q)"
proof (induction p)
  case Nil
  then show ?case by simp
next
  case (Cons c cs)
  show ?case
  proof (cases "open_match ''<'' (Suc 0) (c # cs) \<noteq> None")
    case True
    then have "open_match ''<'' (Suc 0) (c # cs @ q) \<noteq> None" by (rule tag_open_append)
    then show ?thesis by simp
  next
    case False
    with Cons.prems have "has_tag cs" by simp
    then have "has_tag (cs @ q)" by (rule Cons.IH)
    then show ?thesis by simp
  qed
qed

lemma strip_py_decompose: "\<exists>a b. s = a @ strip_py s @ b"
proof -
  define d where "d = dropWhile is_space s"
  define t where "t = takeWhile is_space (rev d)"
  have "rev d = t @ dropWhile is_space (rev d)"
    unfolding t_def by (rule takeWhile_dropWhile_id[symmetric])
  then have "rev (rev d) = rev (t @ dropWhile is_space (rev d))"
    by (rule arg_cong)
  then have "d = rev (dropWhile is_space (rev d)) @ rev t"
    by (simp only: rev_rev_ident rev_append)
  then have "d = strip_py s @ rev t"
    by (simp only: strip_py_def d_def)
  moreover have "s = takeWhile is_space s @ d"
    unfolding d_def by (rule takeWhile_dropWhile_id[symmetric])
  ultimately have "s = takeWhile is_space s @ strip_py s @ rev t"
    by simp
  then show ?thesis by blast
qed

lemma no_tag_strip_py: "\<not> has_tag s \<Longrightarrow> \<not> has_tag (strip_py s)"
proof
  assume n: "\<not> has_tag s" and t: "has_tag (strip_py s)"
  obtain a b where s: "s = a @ strip_py s @ b" using strip_py_decompose by blast
  from t have "has_tag (strip_py s @ b)" by (rule has_tag_append_left)
  then have "has_tag (a @ strip_py s @ b)" by (rule has_tag_append_right)
  with s n show False by simp
qed

lemma set_collapse_newlines: "set (collapse_newlines k rep s) \<subseteq> set rep \<union> set s"
proof (induction k rep s rule: collapse_newlines.induct)
  case (1 k rep)
  show ?case by simp
next
  case (2 k rep c cs)
  have d: "set (dropWhile (\<lambda>x. x = NL) cs) \<subseteq> set cs"
    by (simp add: set_dropWhileD subsetI)
  show ?case
  proof (cases "c = NL \<and> k \<le> length (takeWhile (\<lambda>x. x = NL) (c # cs))")
    case True
    then show ?thesis using 2(1) d by auto
  next
    case False
    then show ?thesis using 2(2) by auto
  qed
qed

lemma has_tag_newlines: "set p \<subseteq> {NL} \<Longrightarrow> has_tag (p @ q) = has_tag q"
proof (induction p)
  case Nil
  show ?case by simp
next
  case (Cons c p)
  then have "c \<noteq> CHR ''<''" by auto
  then show ?case using Cons by (simp add: has_tag_Cons_other del: has_tag.simps)
qed

lemma not_has_tag_Cons:
  "\<not> has_tag (c # cs) \<longleftrightarrow> open_match ''<'' (Suc 0) (c # cs) = None \<and> \<not> has_tag cs"
  by (simp only: has_tag.simps One_nat_def de_Morgan_disj not_not)

lemma collapse_newlines_gt:
  "collapse_newlines k rep (CHR ''>'' # ds) = CHR ''>'' # collapse_newlines k rep ds"
  by simp

lemma no_tag_collapse_newlines:
  "set rep \<subseteq> {NL} \<Longrightarrow> \<not> has_tag s \<Longrightarrow> \<not> has_tag (collapse_newlines k rep s)"
proof (induction k rep s rule: collapse_newlines.induct)
  case (1 k rep)
  show ?case by simp
next
  case (2 k rep c cs)
  note rep = \<open>set rep \<subseteq> {NL}\<close>
  note nt = \<open>\<not> has_tag (c # cs)\<close>
  from nt[unfolded not_has_tag_Cons]
  have ncs: "\<not> has_tag cs" and om: "open_match ''<'' (Suc 0) (c # cs) = None"
    by blast+
  show ?case
  proof (cases "c = NL \<and> k \<le> length (takeWhile (\<lambda>x. x = NL) (c # cs))")
    case True
    have "has_tag (dropWhile (\<lambda>x. x = NL) cs) \<Longrightarrow> has_tag cs"
      using has_tag_append_right[of "dropWhile (\<lambda>x. x = NL) cs" "takeWhile (\<lambda>x. x = NL) cs"]
      by (simp only: takeWhile_dropWhile_id)
    then have "\<not> has_tag (dropWhile (\<lambda>x. x = NL) cs)" using ncs by blast
    then have ih: "\<not> has_tag (collapse_newlines k rep (dropWhile (\<lambda>x. x = NL) cs))"
      by (rule "2.IH"(1)[OF True rep])
    have eq: "collapse_newlines k rep (c # cs)
                = rep @ collapse_newlines k rep (dropWhile (\<lambda>x. x = NL) cs)"
      by (subst collapse_newlines.simps) (rule if_P[OF True])
    show ?thesis
      unfolding eq using ih has_tag_newlines[OF rep] by blast
  next
    case False
    have ih: "\<not> has_tag (collapse_newlines k rep cs)"
      by (rule "2.IH"(2)[OF False rep ncs])
    have eq: "collapse_newlines k rep (c # cs) = c # collapse_newlines k rep cs"
      by (subst collapse_newlines.simps) (rule if_not_P[OF False])
    from om have "c \<noteq> CHR ''<'' \<or> cs = [] \<or> hd cs = CHR ''>'' \<or> CHR ''>'' \<notin> set cs"
      by (simp only: tag_open_none_iff)
    then have "open_match ''<'' (Suc 0) (c # collapse_newlines k rep cs) = None"
    proof (elim disjE)
      assume "c \<noteq> CHR ''<''"
      then show ?thesis by (simp only: tag_open_none_iff simp_thms)
    next
      assume "cs = []"
      then show ?thesis by (simp only: tag_open_none_iff collapse_newlines.simps(1) simp_thms)
    next
      assume h: "hd cs = CHR ''>''"
      show ?thesis
      proof (cases cs)
        case Nil
        then show ?thesis by (simp only: tag_open_none_iff collapse_newlines.simps(1) simp_thms)
      next
        case (Cons d ds)
        with h have "cs = CHR ''>'' # ds" by simp
        then have "hd (collapse_newlines k rep cs) = CHR ''>''"
          by (simp only: collapse_newlines_gt list.sel)
        then show ?thesis by (simp only: tag_open_none_iff simp_thms)
      qed
    next
      assume "CHR ''>'' \<notin> set cs"
      moreover have "CHR ''>'' \<notin> set rep" using rep by auto
      ultimately have "CHR ''>'' \<notin> set (collapse_newlines k rep cs)"
        using set_collapse_newlines[of k rep cs] by blast
      then show ?thesis by (simp only: tag_open_none_iff simp_thms)
    qed
    then show ?thesis
      unfolding eq using ih by (simp only: not_has_tag_Cons simp_thms)
  qed
qed

text \<open>
  C10. In \<open>_html_to_text\<close> the entities are decoded before the remaining tags are
  stripped, so whatever \<open>html.unescape\<close> returns, angle-bracket text that it produces is
  removed like markup: the result of the conversion contains no match of \<open><[^>]+>\<close>. In
  particular, when \<open>html.unescape\<close> turns \<open>&lt;b&gt;bold&lt;/b&gt;\<close> into \<open><b>bold</b>\<close>,
  the conversion of that body is \<open>bold\<close>.
\<close>

theorem html_to_text_strips_decoded_tags:
  "\<not> has_tag (html_to_text unescape content) \<and>
   (unescape ''&lt;b&gt;bold&lt;/b&gt;'' = ''<b>bold</b>'' \<longrightarrow>
      html_to_text unescape (Some ''&lt;b&gt;bold&lt;/b&gt;'') = ''bold'')"
proof
  show "\<not> has_tag (html_to_text unescape content)"
  proof (cases content)
    case None
    then show ?thesis by (simp add: html_to_text_def)
  next
    case (Some h)
    show ?thesis
    proof (cases "h = []")
      case True
      with Some show ?thesis by (simp add: html_to_text_def)
    next
      case False
      have "\<not> has_tag (strip_py (collapse_newlines 3 [NL, NL] (sub_open ''<'' (Suc 0) (\<lambda>m. []) t)))" for t
        by (intro no_tag_strip_py no_tag_collapse_newlines no_tag_sub_open) simp
      then show ?thesis using Some False by (simp add: html_to_text_def Let_def)
    qed
  qed
next
  show "unescape ''&lt;b&gt;bold&lt;/b&gt;'' = ''<b>bold</b>'' \<longrightarrow>
      html_to_text unescape (Some ''&lt;b&gt;bold&lt;/b&gt;'') = ''bold''"
  proof
    assume u: "unescape ''&lt;b&gt;bold&lt;/b&gt;'' = ''<b>bold</b>''"
    have pre: "sub_open ''<en-media'' 0 (\<lambda>m. ''[Attachment]'')
                 (replace_lit ''</en-note>'' []
                    (sub_open ''<en-note'' 0 (\<lambda>m. [])
                       (sub_cdata ''&lt;b&gt;bold&lt;/b&gt;''))) = ''&lt;b&gt;bold&lt;/b&gt;''"
      by code_simp
    have post: "strip_py (collapse_newlines 3 [NL, NL]
                  (sub_open ''<'' 1 (\<lambda>m. [])
                     (replace_lit ''</p>'' [NL, NL] (sub_br [NL] ''<b>bold</b>'')))) = ''bold''"
      by code_simp
    show "html_to_text unescape (Some ''&lt;b&gt;bold&lt;/b&gt;'') = ''bold''"
      unfolding html_to_text_def Let_def
      by (simp only: option.case list.distinct if_False pre u post)
  qed
qed

theorem html_to_text_strips_decoded_tags_witness:
  "example_unescape ''&lt;b&gt;bold&lt;/b&gt;'' = ''<b>bold</b>'' \<and>
   html_to_text example_unescape (Some ''&lt;b&gt;bold&lt;/b&gt;'') = ''bold'' \<and>
   \<not> has_tag (html_to_text example_unescape (Some ''&lt;b&gt;bold&lt;/b&gt;''))"
proof -
  have u: "example_unescape ''&lt;b&gt;bold&lt;/b&gt;'' = ''<b>bold</b>''"
    by code_simp
  show ?thesis
    using html_to_text_strips_decoded_tags[of example_unescape "Some ''&lt;b&gt;bold&lt;/b&gt;''"] u
    by blast
qed

section \<open>Properties of the ENEX parser\<close>

lemma dict_set_nonempty: "dict_set k v d \<noteq> []"
  by (cases d) (auto split: if_splits)

lemma parse_resource_ok:
  "payload_decodes b64decode r \<Longrightarrow> \<exists>d. parse_resource b64decode r = Inr d"
  by (auto simp: payload_decodes_def parse_resource_def Let_def split: option.splits)

lemma parse_resources_ok:
  "\<forall>r \<in> set rs. payload_decodes b64decode r \<Longrightarrow>
   \<exists>res. parse_resources b64decode rs acc = Inr res"
proof (induction rs arbitrary: acc)
  case Nil
  show ?case by simp
next
  case (Cons r rs)
  then obtain d where d: "parse_resource b64decode r = Inr d"
    using parse_resource_ok[of b64decode r] by auto
  from Cons have "\<forall>r \<in> set rs. payload_decodes b64decode r" by simp
  then show ?case using Cons.IH d by simp
qed

lemma parse_note_ok:
  assumes "\<forall>r \<in> set (elem_findall ''resource'' n). payload_decodes b64decode r"
  shows "\<exists>note. parse_note b64decode strptime_iso unescape n = Inr note \<and> truthy (PDict note)"
proof -
  obtain res where "parse_resources b64decode (elem_findall ''resource'' n) [] = Inr res"
    using parse_resources_ok[OF assms] by blast
  then show ?thesis
    by (simp add: parse_note_def Let_def dict_set_nonempty)
qed

lemma parse_notes_ok:
  assumes "\<forall>n \<in> set ns. \<forall>r \<in> set (elem_findall ''resource'' n). payload_decodes b64decode r"
  shows "\<exists>notes. parse_notes b64decode strptime_iso unescape ns acc = Inr (acc @ notes) \<and>
                 map Inr notes = map (parse_note b64decode strptime_iso unescape) ns"
  using assms
proof (induction ns arbitrary: acc)
  case Nil
  show ?case by simp
next
  case (Cons n ns)
  then obtain r0 where r0: "parse_note b64decode strptime_iso unescape n = Inr r0"
    and t: "truthy (PDict r0)"
    using parse_note_ok[of n b64decode strptime_iso unescape] by auto
  from Cons.prems have "\<forall>n \<in> set ns. \<forall>r \<in> set (elem_findall ''resource'' n). payload_decodes b64decode r"
    by simp
  then obtain recs where
    "parse_notes b64decode strptime_iso unescape ns (acc @ [r0]) = Inr ((acc @ [r0]) @ recs)"
    and "map Inr recs = map (parse_note b64decode strptime_iso unescape) ns"
    using Cons.IH[of "acc @ [r0]"] by blast
  then have "parse_notes b64decode strptime_iso unescape (n # ns) acc = Inr (acc @ (r0 # recs)) \<and>
             map Inr (r0 # recs) = map (parse_note b64decode strptime_iso unescape) (n # ns)"
    using r0 t by simp
  then show ?case by blast
qed

text \<open>
  When every base64 payload decodes, \<open>parse_enex_file\<close> returns a list with one
  dictionary per \<open><note>\<close> child of the root, in document order: the list is as long as
  \<open>root.findall('note')\<close>, and its entries are the results of \<open>_parse_note\<close> on these
  children, one after the other. The filter \<open>if note:\<close> drops none of them, since every
  dictionary has at least the key \<open>title\<close>.
\<close>

lemma parse_enex_file_records:
  assumes "payloads_decode b64decode root"
  shows "\<exists>notes. parse_enex_file b64decode strptime_iso unescape root = Inr notes \<and>
                 length notes = length (elem_findall ''note'' root) \<and>
                 map Inr notes = map (parse_note b64decode strptime_iso unescape)
                                     (elem_findall ''note'' root)"
proof -
  from assms have "\<forall>n \<in> set (elem_findall ''note'' root).
                     \<forall>r \<in> set (elem_findall ''resource'' n). payload_decodes b64decode r"
    by (simp add: payloads_decode_def)
  then obtain recs where
    p: "parse_notes b64decode strptime_iso unescape (elem_findall ''note'' root) [] = Inr ([] @ recs)"
    and m: "map Inr recs = map (parse_note b64decode strptime_iso unescape) (elem_findall ''note'' root)"
    using parse_notes_ok[of "elem_findall ''note'' root" b64decode strptime_iso unescape "[]"]
    by blast
  from m have "length (map Inr recs :: (error + pydict) list)
                 = length (map (parse_note b64decode strptime_iso unescape) (elem_findall ''note'' root))"
    by simp
  then have "length recs = length (elem_findall ''note'' root)" by simp
  with p m show ?thesis by (simp add: parse_enex_file_def)
qed

lemma parse_enex_file_records_example:
  "payloads_decode example_b64decode example_root \<and>
   length (elem_findall ''note'' example_root) = 3 \<and>
   (\<exists>notes. parse_enex_file example_b64decode example_strptime example_unescape example_root
              = Inr notes \<and> length notes = 3)"
proof -
  have p: "payloads_decode example_b64decode example_root"
    by (auto simp: payloads_decode_def payload_decodes_def example_root_def example_note_def
                   example_defs)
  have l: "length (elem_findall ''note'' example_root) = 3"
    by (simp add: example_root_def example_note_def elem_findall_def)
  show ?thesis
    using parse_enex_file_records[of example_b64decode example_root
            example_strptime example_unescape] p l
    by auto
qed

lemma parse_resource_bad:
  "\<not> payload_decodes b64decode r \<Longrightarrow>
   parse_resource b64decode r = Inl BinasciiError \<or> parse_resource b64decode r = Inl ValueError"
  by (auto simp: payload_decodes_def parse_resource_def Let_def split: option.splits)

lemma parse_resources_bad:
  "\<exists>r \<in> set rs. \<not> payload_decodes b64decode r \<Longrightarrow>
   parse_resources b64decode rs acc = Inl BinasciiError \<or>
   parse_resources b64decode rs acc = Inl ValueError"
proof (induction rs arbitrary: acc)
  case Nil
  then show ?case by simp
next
  case (Cons r rs)
  show ?case
  proof (cases "payload_decodes b64decode r")
    case True
    then obtain d where d: "parse_resource b64decode r = Inr d"
      using parse_resource_ok by blast
    from True Cons.prems have "\<exists>r \<in> set rs. \<not> payload_decodes b64decode r" by auto
    then show ?thesis using Cons.IH d by simp
  next
    case False
    then show ?thesis using parse_resource_bad[of b64decode r] by auto
  qed
qed

lemma parse_note_bad:
  assumes "\<exists>r \<in> set (elem_findall ''resource'' n). \<not> payload_decodes b64decode r"
  shows "parse_note b64decode strptime_iso unescape n = Inl BinasciiError \<or>
         parse_note b64decode strptime_iso unescape n = Inl ValueError"
  using parse_resources_bad[OF assms, of "[]"]
  by (auto simp: parse_note_def Let_def)

lemma parse_notes_bad:
  assumes "\<exists>n \<in> set ns. \<exists>r \<in> set (elem_findall ''resource'' n). \<not> payload_decodes b64decode r"
  shows "parse_notes b64decode strptime_iso unescape ns acc = Inl BinasciiError \<or>
         parse_notes b64decode strptime_iso unescape ns acc = Inl ValueError"
  using assms
proof (induction ns arbitrary: acc)
  case Nil
  then show ?case by simp
next
  case (Cons n ns)
  show ?case
  proof (cases "\<exists>r \<in> set (elem_findall ''resource'' n). \<not> payload_decodes b64decode r")
    case True
    then show ?thesis
      using parse_note_bad[of n b64decode strptime_iso unescape] by auto
  next
    case False
    then obtain r0 where r0: "parse_note b64decode strptime_iso unescape n = Inr r0"
      using parse_note_ok[of n b64decode strptime_iso unescape] by auto
    from False Cons.prems
    have "\<exists>n \<in> set ns. \<exists>r \<in> set (elem_findall ''resource'' n). \<not> payload_decodes b64decode r"
      by auto
    then show ?thesis using Cons.IH r0 by simp
  qed
qed

text \<open>
  C1. The claim fails for a well-formed document with a payload that \<open>b64decode\<close>
  rejects. \<open>_parse_resource\<close> decodes every base64 payload outside any \<open>try\<close> to take its
  length, so when some resource of some note has such a payload, \<open>parse_enex_file\<close>
  raises the exception of \<open>b64decode\<close> and returns no record at all, also not those of
  the notes before it. It returns records exactly when every payload decodes.
\<close>

theorem parse_enex_file_raises_on_bad_payload:
  "(\<not> payloads_decode b64decode root \<longrightarrow>
      parse_enex_file b64decode strptime_iso unescape root = Inl BinasciiError \<or>
      parse_enex_file b64decode strptime_iso unescape root = Inl ValueError) \<and>
   ((\<exists>notes. parse_enex_file b64decode strptime_iso unescape root = Inr notes)
      = payloads_decode b64decode root)"
proof -
  have bad: "\<not> payloads_decode b64decode root \<longrightarrow>
      parse_enex_file b64decode strptime_iso unescape root = Inl BinasciiError \<or>
      parse_enex_file b64decode strptime_iso unescape root = Inl ValueError"
  proof
    assume "\<not> payloads_decode b64decode root"
    then have "\<exists>n \<in> set (elem_findall ''note'' root).
                 \<exists>r \<in> set (elem_findall ''resource'' n). \<not> payload_decodes b64decode r"
      by (simp add: payloads_decode_def)
    then show "parse_enex_file b64decode strptime_iso unescape root = Inl BinasciiError \<or>
      parse_enex_file b64decode strptime_iso unescape root = Inl ValueError"
      unfolding parse_enex_file_def by (rule parse_notes_bad)
  qed
  have good: "payloads_decode b64decode root \<longrightarrow>
      (\<exists>notes. parse_enex_file b64decode strptime_iso unescape root = Inr notes)"
    using parse_enex_file_records[of b64decode root strptime_iso unescape] by blast
  from bad good show ?thesis by auto
qed

text \<open>
  The failing input: a root with two notes, the second with a resource whose base64 text
  \<open>abc\<close> has no valid padding. The claim gives two records; the code raises.
\<close>

theorem parse_enex_file_raises_on_bad_payload_witness:
  "\<not> payloads_decode example_b64decode example_bad_root \<and>
   length (elem_findall ''note'' example_bad_root) = 2 \<and>
   parse_enex_file example_b64decode example_strptime example_unescape example_bad_root
     = Inl BinasciiError"
proof -
  have n: "\<not> payloads_decode example_b64decode example_bad_root"
    by code_simp
  have l: "length (elem_findall ''note'' example_bad_root) = 2"
    by (simp add: example_bad_root_def example_note_def elem_findall_def)
  have v: "parse_enex_file example_b64decode example_strptime example_unescape example_bad_root
             \<noteq> Inl ValueError"
    by code_simp
  show ?thesis
    using parse_enex_file_raises_on_bad_payload[of example_b64decode example_bad_root
            example_strptime example_unescape] n l v
    by blast
qed

section \<open>Properties of the Markdown conversion\<close>

lemma nl_run_simps:
  "nl_run [] = 0" "nl_run (NL # s) = Suc (nl_run s)" "c \<noteq> NL \<Longrightarrow> nl_run (c # s) = 0"
  by (simp_all add: nl_run_def)

lemma collapse_newlines_unfold:
  "collapse_newlines k rep (c # cs) =
     (if c = NL \<and> k \<le> nl_run (c # cs)
      then rep @ collapse_newlines k rep (dropWhile (\<lambda>x. x = NL) cs)
      else c # collapse_newlines k rep cs)"
  unfolding nl_run_def by (rule collapse_newlines.simps(2))

lemma nl_run_collapse_short:
  "nl_run s < k \<Longrightarrow> nl_run (collapse_newlines k rep s) = nl_run s"
proof (induction s)
  case Nil
  show ?case by simp
next
  case (Cons c cs)
  show ?case
  proof (cases "c = NL")
    case True
    with Cons.prems have short: "nl_run cs < k" and nomatch: "\<not> (c = NL \<and> k \<le> nl_run (c # cs))"
      by (simp_all add: nl_run_simps)
    have "collapse_newlines k rep (c # cs) = c # collapse_newlines k rep cs"
      by (subst collapse_newlines_unfold) (rule if_not_P[OF nomatch])
    then show ?thesis
      using True Cons.IH[OF short] by (simp add: nl_run_simps del: collapse_newlines.simps)
  next
    case False
    then have nomatch: "\<not> (c = NL \<and> k \<le> nl_run (c # cs))" by simp
    have "collapse_newlines k rep (c # cs) = c # collapse_newlines k rep cs"
      by (subst collapse_newlines_unfold) (rule if_not_P[OF nomatch])
    then show ?thesis using False by (simp add: nl_run_simps del: collapse_newlines.simps)
  qed
qed

lemma nl_run_dropWhile: "nl_run (dropWhile (\<lambda>x. x = NL) s) = 0"
  by (induction s) (simp_all add: nl_run_def)

lemma nl_run_replicate: "nl_run (replicate j NL @ t) = j + nl_run t"
  by (induction j) (simp_all add: nl_run_def)

lemma has_nl_run_replicate:
  "has_nl_run k (replicate j NL @ t) \<Longrightarrow> k \<le> j + nl_run t \<or> has_nl_run k t"
proof (induction j)
  case 0
  then show ?case by simp
next
  case (Suc j)
  have r: "nl_run (replicate (Suc j) NL @ t) = Suc j + nl_run t"
    by (rule nl_run_replicate)
  from Suc.prems have "k \<le> nl_run (replicate (Suc j) NL @ t) \<or> has_nl_run k (replicate j NL @ t)"
    by simp
  then show ?case
  proof
    assume "k \<le> nl_run (replicate (Suc j) NL @ t)"
    then show ?thesis unfolding r by simp
  next
    assume "has_nl_run k (replicate j NL @ t)"
    then have "k \<le> j + nl_run t \<or> has_nl_run k t" by (rule Suc.IH)
    then show ?thesis by auto
  qed
qed

lemma no_nl_run_collapse:
  assumes "j < k"
  shows "\<not> has_nl_run k (collapse_newlines k (replicate j NL) s)"
proof (induction s rule: length_induct)
  case (1 s)
  show ?case
  proof (cases s)
    case Nil
    then show ?thesis by simp
  next
    case (Cons c cs)
    show ?thesis
    proof (cases "c = NL \<and> k \<le> nl_run (c # cs)")
      case True
      define d where "d = dropWhile (\<lambda>x. x = NL) cs"
      have eq: "collapse_newlines k (replicate j NL) s
                  = replicate j NL @ collapse_newlines k (replicate j NL) d"
        unfolding Cons d_def by (subst collapse_newlines_unfold) (rule if_P[OF True])
      have "length d < length s"
        unfolding d_def Cons using length_dropWhile_le[of "\<lambda>x. x = NL" cs] by simp
      then have ih: "\<not> has_nl_run k (collapse_newlines k (replicate j NL) d)"
        using 1 by blast
      have "nl_run d = 0" unfolding d_def by (rule nl_run_dropWhile)
      then have "nl_run (collapse_newlines k (replicate j NL) d) = 0"
        using nl_run_collapse_short[of d k "replicate j NL"] assms by simp
      with ih assms show ?thesis
        unfolding eq using has_nl_run_replicate[of k j "collapse_newlines k (replicate j NL) d"]
        by (auto simp del: collapse_newlines.simps)
    next
      case False
      have eq: "collapse_newlines k (replicate j NL) s
                  = c # collapse_newlines k (replicate j NL) cs"
        unfolding Cons by (subst collapse_newlines_unfold) (rule if_not_P[OF False])
      have ih: "\<not> has_nl_run k (collapse_newlines k (replicate j NL) cs)"
        using 1 Cons by simp
      have "nl_run (c # collapse_newlines k (replicate j NL) cs) < k"
      proof (cases "c = NL")
        case True
        with False have s: "Suc (nl_run cs) < k" by (simp add: nl_run_simps)
        then have "nl_run (collapse_newlines k (replicate j NL) cs) = nl_run cs"
          using nl_run_collapse_short[of cs k "replicate j NL"] by simp
        with s True show ?thesis by (simp add: nl_run_simps del: collapse_newlines.simps)
      next
        case False
        then show ?thesis using assms by (simp add: nl_run_simps del: collapse_newlines.simps)
      qed
      with ih show ?thesis unfolding eq by (simp del: collapse_newlines.simps)
    qed
  qed
qed

lemma blank_before_nl_Cons:
  "blank_before_nl (a # t) = ((is_blank a \<and> t \<noteq> [] \<and> hd t = NL) \<or> blank_before_nl t)"
  by (cases t) auto

lemma NL_not_blank: "\<not> is_blank NL"
  by (simp add: is_blank_def)

lemma strip_trailing_blanks_unfold:
  "strip_trailing_blanks (c # cs) =
     (if is_blank c \<and> (\<exists>rest. dropWhile is_blank cs = NL # rest)
      then NL # strip_trailing_blanks (tl (dropWhile is_blank cs))
      else c # strip_trailing_blanks cs)"
proof (cases "dropWhile is_blank cs")
  case Nil
  then show ?thesis by (simp del: dropWhile_eq_Nil_conv)
next
  case (Cons d rest)
  then show ?thesis by simp
qed

lemma strip_trailing_blanks_head_NL:
  assumes "strip_trailing_blanks s = NL # t"
  shows "\<exists>r. dropWhile is_blank s = NL # r"
proof (cases s)
  case Nil
  with assms show ?thesis by simp
next
  case (Cons c cs)
  show ?thesis
  proof (cases "is_blank c \<and> (\<exists>rest. dropWhile is_blank cs = NL # rest)")
    case True
    with Cons show ?thesis by simp
  next
    case False
    then have "strip_trailing_blanks (c # cs) = c # strip_trailing_blanks cs"
      by (subst strip_trailing_blanks_unfold) (rule if_not_P)
    with assms Cons have c: "c = NL" by simp
    then have "\<not> is_blank c" using NL_not_blank by simp
    with Cons c show ?thesis by simp
  qed
qed

lemma no_blank_before_nl_strip: "\<not> blank_before_nl (strip_trailing_blanks s)"
proof (induction s rule: length_induct)
  case (1 s)
  show ?case
  proof (cases s)
    case Nil
    then show ?thesis by simp
  next
    case (Cons c cs)
    have ihcs: "\<not> blank_before_nl (strip_trailing_blanks cs)"
      using 1 Cons by simp
    show ?thesis
    proof (cases "is_blank c \<and> (\<exists>rest. dropWhile is_blank cs = NL # rest)")
      case True
      then obtain rest where d: "dropWhile is_blank cs = NL # rest" by blast
      have "length (NL # rest) \<le> length cs"
        using length_dropWhile_le[of is_blank cs] d by simp
      then have ih: "\<not> blank_before_nl (strip_trailing_blanks rest)"
        using 1 Cons by simp
      have "strip_trailing_blanks (c # cs) = NL # strip_trailing_blanks (tl (dropWhile is_blank cs))"
        by (subst strip_trailing_blanks_unfold) (rule if_P[OF True])
      then have "strip_trailing_blanks s = NL # strip_trailing_blanks rest"
        using d Cons by simp
      with ih show ?thesis using NL_not_blank by (simp add: blank_before_nl_Cons)
    next
      case False
      have eq: "strip_trailing_blanks s = c # strip_trailing_blanks cs"
        unfolding Cons by (subst strip_trailing_blanks_unfold) (rule if_not_P[OF False])
      have "\<not> (is_blank c \<and> strip_trailing_blanks cs \<noteq> [] \<and> hd (strip_trailing_blanks cs) = NL)"
      proof
        assume a: "is_blank c \<and> strip_trailing_blanks cs \<noteq> [] \<and> hd (strip_trailing_blanks cs) = NL"
        then obtain t where "strip_trailing_blanks cs = NL # t"
          by (cases "strip_trailing_blanks cs") auto
        then have "\<exists>r. dropWhile is_blank cs = NL # r"
          by (rule strip_trailing_blanks_head_NL)
        with a False show False by blast
      qed
      with ihcs show ?thesis unfolding eq by (simp add: blank_before_nl_Cons)
    qed
  qed
qed

lemma runs_hd: "runs t = (d, m) # r \<Longrightarrow> t \<noteq> [] \<and> hd t = d"
  by (cases t) (auto split: list.splits if_splits)

lemma runs_replicate:
  "0 < n \<Longrightarrow> t = [] \<or> hd t \<noteq> c \<Longrightarrow> runs (replicate n c @ t) = (c, n) # runs t"
proof (induction n)
  case 0
  then show ?case by simp
next
  case (Suc n)
  show ?case
  proof (cases n)
    case 0
    show ?thesis
    proof (cases "runs t")
      case Nil
      then show ?thesis using 0 by simp
    next
      case (Cons p r)
      obtain d m where p: "p = (d, m)" by (cases p)
      with Cons have "t \<noteq> [] \<and> hd t = d" using runs_hd by blast
      with Suc.prems have "c \<noteq> d" by auto
      then show ?thesis using 0 Cons p by simp
    qed
  next
    case (Suc k)
    then have "runs (replicate n c @ t) = (c, n) # runs t"
      using Suc.IH Suc.prems by simp
    then show ?thesis by simp
  qed
qed

lemma takeWhile_replicate:
  "takeWhile (\<lambda>x. x = c) s = replicate (length (takeWhile (\<lambda>x. x = c) s)) c"
  by (induction s) auto

lemma nl_split: "s = replicate (nl_run s) NL @ dropWhile (\<lambda>x. x = NL) s"
proof -
  have "s = takeWhile (\<lambda>x. x = NL) s @ dropWhile (\<lambda>x. x = NL) s" by simp
  then show ?thesis
    unfolding nl_run_def using takeWhile_replicate[of NL s] by metis
qed

lemma nl_run_0: "nl_run t = 0 \<Longrightarrow> t = [] \<or> hd t \<noteq> NL"
  by (cases t) (auto simp: nl_run_def split: if_splits)

lemma dropWhile_nl_run_0: "nl_run t = 0 \<Longrightarrow> dropWhile (\<lambda>x. x = NL) t = t"
  by (cases t) (auto simp: nl_run_def split: if_splits)

lemma collapse_short_run:
  "n < k \<Longrightarrow> nl_run t = 0 \<Longrightarrow>
   collapse_newlines k rep (replicate n NL @ t) = replicate n NL @ collapse_newlines k rep t"
proof (induction n)
  case 0
  then show ?case by simp
next
  case (Suc n)
  have run: "nl_run (NL # replicate n NL @ t) = Suc n"
    using nl_run_replicate[of "Suc n" t] Suc.prems by simp
  have nomatch: "\<not> (NL = NL \<and> k \<le> nl_run (NL # replicate n NL @ t))"
    using run Suc.prems by simp
  have "collapse_newlines k rep (NL # replicate n NL @ t)
          = NL # collapse_newlines k rep (replicate n NL @ t)"
    by (subst collapse_newlines_unfold) (rule if_not_P[OF nomatch])
  then show ?case using Suc by simp
qed

lemma collapse_long_run:
  assumes "k \<le> n" and "0 < n" and "nl_run t = 0"
  shows "collapse_newlines k rep (replicate n NL @ t) = rep @ collapse_newlines k rep t"
proof -
  obtain m where n: "n = Suc m" using assms(2) by (cases n) auto
  have run: "nl_run (NL # replicate m NL @ t) = n"
    using nl_run_replicate[of "Suc m" t] assms(3) n by simp
  have match: "NL = NL \<and> k \<le> nl_run (NL # replicate m NL @ t)"
    using run assms(1) by simp
  have "collapse_newlines k rep (NL # replicate m NL @ t)
          = rep @ collapse_newlines k rep (dropWhile (\<lambda>x. x = NL) (replicate m NL @ t))"
    by (subst collapse_newlines_unfold) (rule if_P[OF match])
  moreover have "dropWhile (\<lambda>x. x = NL) (replicate m NL @ t) = t"
    using dropWhile_nl_run_0[OF assms(3)] by (simp add: dropWhile_append)
  ultimately show ?thesis using n by simp
qed

lemma spec_collapse_Cons:
  "c \<noteq> NL \<Longrightarrow> spec_collapse_blank_lines (c # cs) = c # spec_collapse_blank_lines cs"
  by (auto simp: spec_collapse_blank_lines_def unruns_def split: list.splits)

lemma spec_collapse_run:
  assumes "0 < n" and "nl_run t = 0"
  shows "spec_collapse_blank_lines (replicate n NL @ t)
           = (if 4 \<le> n then [NL, NL, NL] else replicate n NL) @ spec_collapse_blank_lines t"
proof -
  have "runs (replicate n NL @ t) = (NL, n) # runs t"
    using assms nl_run_0[of t] by (intro runs_replicate) auto
  then show ?thesis
    by (simp add: spec_collapse_blank_lines_def unruns_def numeral_3_eq_3)
qed

lemma collapse_newlines_is_spec:
  "collapse_newlines 4 [NL, NL, NL] s = spec_collapse_blank_lines s"
proof (induction s rule: length_induct)
  case (1 s)
  show ?case
  proof (cases s)
    case Nil
    then show ?thesis by (simp add: spec_collapse_blank_lines_def unruns_def)
  next
    case (Cons c cs)
    show ?thesis
    proof (cases "c = NL")
      case False
      then have nomatch: "\<not> (c = NL \<and> 4 \<le> nl_run (c # cs))" by simp
      have "collapse_newlines 4 [NL, NL, NL] (c # cs) = c # collapse_newlines 4 [NL, NL, NL] cs"
        by (subst collapse_newlines_unfold) (rule if_not_P[OF nomatch])
      moreover have "collapse_newlines 4 [NL, NL, NL] cs = spec_collapse_blank_lines cs"
        using 1 Cons by simp
      ultimately show ?thesis
        using Cons spec_collapse_Cons[OF False] by simp
    next
      case True
      define n where "n = nl_run s"
      define t where "t = dropWhile (\<lambda>x. x = NL) s"
      have s: "s = replicate n NL @ t"
        unfolding n_def t_def by (rule nl_split)
      have n0: "0 < n"
        unfolding n_def using Cons True by (simp add: nl_run_simps)
      have t0: "nl_run t = 0"
        unfolding t_def by (rule nl_run_dropWhile)
      have "length t < length s"
        using s n0 by (metis add.commute length_append length_replicate less_add_same_cancel1)
      then have ih: "collapse_newlines 4 [NL, NL, NL] t = spec_collapse_blank_lines t"
        using 1 by blast
      have c: "collapse_newlines 4 [NL, NL, NL] (replicate n NL @ t)
                 = (if 4 \<le> n then [NL, NL, NL] else replicate n NL)
                   @ collapse_newlines 4 [NL, NL, NL] t"
      proof (cases "4 \<le> n")
        case True
        then show ?thesis using collapse_long_run[OF True n0 t0] by simp
      next
        case False
        then have "n < 4" by simp
        then show ?thesis using collapse_short_run[OF _ t0] False by simp
      qed
      have "collapse_newlines 4 [NL, NL, NL] s
              = (if 4 \<le> n then [NL, NL, NL] else replicate n NL) @ spec_collapse_blank_lines t"
        using c ih s by simp
      also have "\<dots> = spec_collapse_blank_lines (replicate n NL @ t)"
        using spec_collapse_run[OF n0 t0] by simp
      finally show ?thesis using s by simp
    qed
  qed
qed

lemma join_strs_Cons:
  "join_strs sep (x # ys) = (if ys = [] then x else x @ sep @ join_strs sep ys)"
  by (cases ys) auto

lemma strip_line_ends_nonempty: "ls \<noteq> [] \<Longrightarrow> strip_line_ends ls \<noteq> []"
  by (induction ls rule: strip_line_ends.induct) auto

lemma strip_line_ends_Cons:
  "ls \<noteq> [] \<Longrightarrow> strip_line_ends (l # ls) = rstrip_blanks l # strip_line_ends ls"
  by (cases ls) auto

lemma split_on_NL_none: "NL \<notin> set l \<Longrightarrow> split_on NL l = [l]"
  by (rule split_on_none)

lemma spec_strip_line: "NL \<notin> set l \<Longrightarrow> spec_strip_line_ends l = l"
  by (simp add: spec_strip_line_ends_def split_on_none)

lemma spec_strip_lines:
  assumes "NL \<notin> set l"
  shows "spec_strip_line_ends (l @ NL # rest) = rstrip_blanks l @ NL # spec_strip_line_ends rest"
proof -
  have "split_on NL (l @ NL # rest) = l # split_on NL rest"
    using assms by (simp add: split_on_append split_on_none)
  moreover have ne: "split_on NL rest \<noteq> []" by (rule split_on_nonempty)
  ultimately have "strip_line_ends (split_on NL (l @ NL # rest))
                     = rstrip_blanks l # strip_line_ends (split_on NL rest)"
    by (simp add: strip_line_ends_Cons)
  then show ?thesis
    using strip_line_ends_nonempty[OF ne]
    by (simp add: spec_strip_line_ends_def join_strs_Cons)
qed

lemma rstrip_blanks_all: "\<forall>x \<in> set l. is_blank x \<Longrightarrow> rstrip_blanks l = []"
  by (simp add: rstrip_blanks_def)

lemma rstrip_blanks_Cons:
  "\<not> (is_blank c \<and> (\<forall>x \<in> set l. is_blank x)) \<Longrightarrow> rstrip_blanks (c # l) = c # rstrip_blanks l"
proof -
  assume h: "\<not> (is_blank c \<and> (\<forall>x \<in> set l. is_blank x))"
  show ?thesis
  proof (cases "\<forall>x \<in> set l. is_blank x")
    case True
    with h have nb: "\<not> is_blank c" by simp
    have "dropWhile is_blank (rev l @ [c]) = dropWhile is_blank [c]"
      using True by (intro dropWhile_append2) simp
    moreover have "dropWhile is_blank (rev l) = []"
      using True by simp
    ultimately show ?thesis using nb by (simp add: rstrip_blanks_def)
  next
    case False
    then have "\<exists>x \<in> set (rev l). \<not> is_blank x" by simp
    then have "dropWhile is_blank (rev l @ [c]) = dropWhile is_blank (rev l) @ [c]"
      by (metis dropWhile_append1)
    then show ?thesis by (simp add: rstrip_blanks_def)
  qed
qed

lemma dropWhile_blank_line:
  assumes "NL \<notin> set l"
  shows "(\<exists>r. dropWhile is_blank (l @ NL # rest) = NL # r) = (\<forall>x \<in> set l. is_blank x)"
  using assms
proof (induction l)
  case Nil
  then show ?case by (simp add: NL_not_blank)
next
  case (Cons c l)
  then show ?case by (auto simp: NL_not_blank)
qed

lemma dropWhile_blank_line_rest:
  "\<forall>x \<in> set l. is_blank x \<Longrightarrow> dropWhile is_blank (l @ NL # rest) = NL # rest"
  by (induction l) (auto simp: NL_not_blank)

lemma strip_trailing_blanks_line:
  assumes "NL \<notin> set l"
  shows "strip_trailing_blanks (l @ NL # rest) = rstrip_blanks l @ NL # strip_trailing_blanks rest"
  using assms
proof (induction l)
  case Nil
  have "\<not> (is_blank NL \<and> (\<exists>r. dropWhile is_blank rest = NL # r))"
    using NL_not_blank by simp
  then have "strip_trailing_blanks (NL # rest) = NL # strip_trailing_blanks rest"
    by (subst strip_trailing_blanks_unfold) (rule if_not_P)
  then show ?case by (simp add: rstrip_blanks_def)
next
  case (Cons c l)
  then have nl: "NL \<notin> set l" by simp
  show ?case
  proof (cases "is_blank c \<and> (\<forall>x \<in> set l. is_blank x)")
    case True
    then have all: "\<forall>x \<in> set l. is_blank x" by simp
    have d: "dropWhile is_blank (l @ NL # rest) = NL # rest"
      using all by (rule dropWhile_blank_line_rest)
    have m: "is_blank c \<and> (\<exists>r. dropWhile is_blank (l @ NL # rest) = NL # r)"
      using True d by simp
    have "strip_trailing_blanks (c # (l @ NL # rest))
            = NL # strip_trailing_blanks (tl (dropWhile is_blank (l @ NL # rest)))"
      by (subst strip_trailing_blanks_unfold) (rule if_P[OF m])
    then have "strip_trailing_blanks ((c # l) @ NL # rest) = NL # strip_trailing_blanks rest"
      using d by simp
    moreover have "rstrip_blanks (c # l) = []"
      using True by (intro rstrip_blanks_all) simp
    ultimately show ?thesis by simp
  next
    case False
    have nm: "\<not> (is_blank c \<and> (\<exists>r. dropWhile is_blank (l @ NL # rest) = NL # r))"
      using False dropWhile_blank_line[OF nl, of rest] by blast
    have "strip_trailing_blanks (c # (l @ NL # rest))
            = c # strip_trailing_blanks (l @ NL # rest)"
      by (subst strip_trailing_blanks_unfold) (rule if_not_P[OF nm])
    then have "strip_trailing_blanks ((c # l) @ NL # rest)
                 = c # rstrip_blanks l @ NL # strip_trailing_blanks rest"
      using Cons.IH[OF nl] by simp
    then show ?thesis
      using rstrip_blanks_Cons[OF False] by simp
  qed
qed

lemma strip_trailing_blanks_last_line:
  "NL \<notin> set l \<Longrightarrow> strip_trailing_blanks l = l"
proof (induction l)
  case Nil
  show ?case by simp
next
  case (Cons c l)
  have "\<not> (\<exists>r. dropWhile is_blank l = NL # r)"
  proof
    assume "\<exists>r. dropWhile is_blank l = NL # r"
    then obtain r where "dropWhile is_blank l = NL # r" by blast
    then have "NL \<in> set (dropWhile is_blank l)" by simp
    then have "NL \<in> set l" by (rule set_dropWhileD)
    with Cons.prems show False by simp
  qed
  then have nm: "\<not> (is_blank c \<and> (\<exists>r. dropWhile is_blank l = NL # r))" by simp
  have "strip_trailing_blanks (c # l) = c # strip_trailing_blanks l"
    by (subst strip_trailing_blanks_unfold) (rule if_not_P[OF nm])
  then show ?case using Cons by simp
qed

lemma strip_trailing_blanks_is_spec:
  "strip_trailing_blanks s = spec_strip_line_ends s"
proof (induction s rule: length_induct)
  case (1 s)
  show ?case
  proof (cases "NL \<in> set s")
    case False
    then show ?thesis
      by (simp add: strip_trailing_blanks_last_line spec_strip_line)
  next
    case True
    then obtain l rest where s: "s = l @ NL # rest" and l: "NL \<notin> set l"
      by (meson split_list_first)
    have "length rest < length s" using s by simp
    then have "strip_trailing_blanks rest = spec_strip_line_ends rest"
      using 1 by blast
    then show ?thesis
      unfolding s using strip_trailing_blanks_line[OF l, of rest] spec_strip_lines[OF l, of rest]
      by simp
  qed
qed

text \<open>
  C6 (as amended). Markup conversion applies the two whitespace rewrites before it
  decodes the entities, and only the trim after: for a non-empty body the result is
  \<open>strip()\<close> of \<open>html.unescape\<close> of the cleaned text, where the cleaned text is the output
  of the tag rewrites with every run of four or more newlines replaced by exactly three
  newlines (two blank lines), every other run kept, and then the spaces and tabs removed
  from the end of every line that ends with a newline. So the text has no run of four
  newlines after the first rewrite, the text handed to \<open>html.unescape\<close> has no space or
  tab directly before a newline, and the result has no whitespace at either end;
  whitespace that the decoding produces is not cleaned.
\<close>

theorem markdown_cleanup_before_decoding:
  "html_to_markdown_with_images unescape (Some h) resources =
     (if h = [] then []
      else strip_py (unescape (spec_strip_line_ends (spec_collapse_blank_lines
                                 (markdown_tag_rewrites resources h))))) \<and>
   \<not> has_nl_run 4 (spec_collapse_blank_lines (markdown_tag_rewrites resources h)) \<and>
   \<not> blank_before_nl (spec_strip_line_ends (spec_collapse_blank_lines
                          (markdown_tag_rewrites resources h))) \<and>
   (html_to_markdown_with_images unescape (Some h) resources \<noteq> [] \<longrightarrow>
      \<not> is_space (hd (html_to_markdown_with_images unescape (Some h) resources)) \<and>
      \<not> is_space (last (html_to_markdown_with_images unescape (Some h) resources)))"
proof (intro conjI)
  let ?t = "markdown_tag_rewrites resources h"
  let ?u = "unescape (spec_strip_line_ends (spec_collapse_blank_lines ?t))"
  show eq: "html_to_markdown_with_images unescape (Some h) resources =
     (if h = [] then [] else strip_py ?u)"
    by (simp add: html_to_markdown_with_images_def Let_def collapse_newlines_is_spec
                  strip_trailing_blanks_is_spec
             del: collapse_newlines.simps strip_trailing_blanks.simps)
  have "\<not> has_nl_run 4 (collapse_newlines 4 (replicate 3 NL) ?t)"
    by (rule no_nl_run_collapse) simp
  then have "\<not> has_nl_run 4 (collapse_newlines 4 [NL, NL, NL] ?t)"
    by (simp add: numeral_3_eq_3 del: collapse_newlines.simps has_nl_run.simps)
  then show "\<not> has_nl_run 4 (spec_collapse_blank_lines ?t)"
    unfolding collapse_newlines_is_spec .
  have "\<not> blank_before_nl (strip_trailing_blanks (spec_collapse_blank_lines ?t))"
    by (rule no_blank_before_nl_strip)
  then show "\<not> blank_before_nl (spec_strip_line_ends (spec_collapse_blank_lines ?t))"
    unfolding strip_trailing_blanks_is_spec .
  show "html_to_markdown_with_images unescape (Some h) resources \<noteq> [] \<longrightarrow>
      \<not> is_space (hd (html_to_markdown_with_images unescape (Some h) resources)) \<and>
      \<not> is_space (last (html_to_markdown_with_images unescape (Some h) resources))"
  proof (cases "h = []")
    case True
    then show ?thesis unfolding eq by simp
  next
    case False
    then have "html_to_markdown_with_images unescape (Some h) resources = strip_py ?u"
      unfolding eq by simp
    then show ?thesis using strip_py_ends[of ?u] by simp
  qed
qed

theorem markdown_cleanup_before_decoding_witness:
  "html_to_markdown_with_images example_unescape
     (Some (''<div>a '' @ [TAB, NL, NL, NL, NL, NL] @ ''b &#10;c</div>  '')) []
     = ''a'' @ [NL, NL, NL] @ ''b '' @ [NL] @ ''c'' \<and>
   spec_collapse_blank_lines (markdown_tag_rewrites []
       (''<div>a '' @ [TAB, NL, NL, NL, NL, NL] @ ''b &#10;c</div>  ''))
     = [NL, NL] @ ''a '' @ [TAB, NL, NL, NL] @ ''b &#10;c'' @ [NL, NL] @ ''  ''"
proof -
  let ?h = "''<div>a '' @ [TAB, NL, NL, NL, NL, NL] @ ''b &#10;c</div>  ''"
  have n: "?h \<noteq> []"
    by simp
  have c: "strip_py (example_unescape (spec_strip_line_ends (spec_collapse_blank_lines
             (markdown_tag_rewrites [] ?h))))
           = ''a'' @ [NL, NL, NL] @ ''b '' @ [NL] @ ''c''"
    by code_simp
  have k: "spec_collapse_blank_lines (markdown_tag_rewrites [] ?h)
             = [NL, NL] @ ''a '' @ [TAB, NL, NL, NL] @ ''b &#10;c'' @ [NL, NL] @ ''  ''"
    by code_simp
  have "html_to_markdown_with_images example_unescape (Some ?h) []
          = (if ?h = [] then []
             else strip_py (example_unescape (spec_strip_line_ends (spec_collapse_blank_lines
                              (markdown_tag_rewrites [] ?h)))))"
    using markdown_cleanup_before_decoding[of example_unescape ?h "[]"] by (rule conjunct1)
  then have "html_to_markdown_with_images example_unescape (Some ?h) []
               = ''a'' @ [NL, NL, NL] @ ''b '' @ [NL] @ ''c''"
    unfolding c if_not_P[OF n] .
  then show ?thesis using k by (simp only: simp_thms)
qed

text \<open>
  With the decoding last, five newlines written as character references stay five
  newlines; in the order of the specification they would be collapsed to three.
\<close>

theorem markdown_decode_order_counterexample:
  "html_to_markdown_with_images example_unescape (Some ''a&#10;&#10;&#10;&#10;&#10;b'') []
     = ''a'' @ [NL, NL, NL, NL, NL] @ ''b'' \<and>
   spec_markup_conversion example_unescape (Some ''a&#10;&#10;&#10;&#10;&#10;b'') []
     = ''a'' @ [NL, NL, NL] @ ''b''"
  by code_simp

text \<open>
  C3. The parts of the claim that the code has: a placeholder without a matching
  resource becomes \<open>[Attachment]\<close>, one that matches an image becomes an image reference
  to the relative path, one that matches another resource a link with the paperclip, each
  between two pairs of newlines. The text in the brackets is the value stored under
  \<open>original_filename\<close>, also when that value is \<open>None\<close>.
\<close>

lemma path_join_out:
  "path_join ''out/attachments'' ''5289df73.png'' = ''out/attachments/5289df73.png''"
  by code_simp

lemma replace_media_cases:
  "replace_media lookup tag =
     (case hash_search tag of
        None \<Rightarrow> [NL, NL] @ ''[Attachment]'' @ [NL, NL]
      | Some h \<Rightarrow>
          (case lookup h of
             None \<Rightarrow> [NL, NL] @ ''[Attachment]'' @ [NL, NL]
           | Some r \<Rightarrow>
               if ri_is_image r
               then [NL, NL] @ ''!['' @ py_format (ri_original_filename r) @ '']('' @
                    ri_relative_path r @ '')'' @ [NL, NL]
               else [NL, NL] @ ''['' @ paperclip @ '' '' @ py_format (ri_original_filename r) @
                    '']('' @ ri_relative_path r @ '')'' @ [NL, NL]))"
  by (simp add: replace_media_def dict_get_def Let_def split: option.splits)

text \<open>
  C3 at the failing input: an image resource without \<open><file-name>\<close>, extracted by
  \<open>_extract_resource\<close>, and a body whose placeholder names its hash. The dictionary has
  the key \<open>original_filename\<close> with value \<open>None\<close>, so \<open>.get('original_filename', 'Image')\<close>
  returns \<open>None\<close> and the alt text is \<open>None\<close>, not \<open>Image\<close>.
\<close>

theorem media_alt_text_is_None:
  "\<exists>info fs'.
     extract_resource_enh example_b64decode example_md5 (\<lambda>p. True)
       (example_resource ''base64'' ''AQID'' ''image/png'' None) ''out/attachments'' 1 Map.empty
       = (Inr (Some info), fs') \<and>
     ri_original_filename info = None \<and> ri_is_image info \<and>
     ri_resource_hash info = Some ''abc123'' \<and>
     html_to_markdown_with_images example_unescape (Some example_media_body) [info]
       = ''See'' @ [NL, NL, NL] @ ''![None](attachments/5289df73.png)''"
proof -
  let ?info = "\<lparr>ri_hash = ''5289df73'', ri_resource_hash = Some ''abc123'',
                ri_filename = ''5289df73.png'', ri_original_filename = None,
                ri_mime_type = ''image/png'', ri_size = 3,
                ri_file_path = ''out/attachments/5289df73.png'',
                ri_relative_path = ''attachments/5289df73.png'',
                ri_note_index = 1, ri_is_image = True\<rparr>"
  have f: "resolve_filename ''5289df73'' (Some ''image/png'') None = ''5289df73.png''"
    by (simp add: resolve_filename_def get_extension_from_mime_def mime_to_ext_def)
  have e: "extract_resource_enh example_b64decode example_md5 (\<lambda>p. True)
       (example_resource ''base64'' ''AQID'' ''image/png'' None) ''out/attachments'' 1 Map.empty
       = (Inr (Some ?info), [''out/attachments/5289df73.png'' \<mapsto> [1, 2, 3]])"
    by (simp add: extract_resource_enh_def example_defs f Let_def starts_with_def path_join_out)
  have m: "html_to_markdown_with_images example_unescape (Some example_media_body) [?info]
       = ''See'' @ [NL, NL, NL] @ ''![None](attachments/5289df73.png)''"
    by code_simp
  show ?thesis
    using e m by simp
qed

section \<open>Properties of write failures\<close>









end
